theory Spec2Isabelle
  imports Main "HOL-Library.Word"
begin

section \<open>The multi-allocating-argument scanner (src/src/maacheck.cpp)\<close>

text \<open>
  The scanner reads three facts of an operand: whether it is a call instruction, which
  function that call names directly (none for an indirect call), and, for a phi node, its
  incoming values.  Functions are identified by their address, here a number.
\<close>

type_synonym Function = nat

datatype ArgExpKind = AK_NOALLOC | AK_ALLOCATING | AK_FRESH

text \<open>The numeric value of the enumerators, which the scanner compares.\<close>

fun kind_value :: "ArgExpKind \<Rightarrow> nat" where
  "kind_value AK_NOALLOC = 0"
| "kind_value AK_ALLOCATING = 1"
| "kind_value AK_FRESH = 2"

datatype Operand =
    CallInst "Function option"
  | PHINode "Operand list"
  | OtherValue

text \<open>
  \<open>classifyArgumentExpression\<close>.  The predicate \<open>isAllocatingFunction\<close> (with the
  call-graph closure and the index of the collector's function fixed) is declared in
  allocators.h, which is not among the sources; it is a parameter.  \<open>possibleAllocators\<close>
  is the set filled by \<open>findPossibleAllocators\<close>.
\<close>

definition classifyArgumentExpression ::
  "(Function \<Rightarrow> bool) \<Rightarrow> Function set \<Rightarrow> Operand \<Rightarrow> ArgExpKind" where
  "classifyArgumentExpression isAllocatingFunction possibleAllocators arg =
     (case arg of
        CallInst None \<Rightarrow> AK_NOALLOC
      | CallInst (Some f) \<Rightarrow>
          if \<not> isAllocatingFunction f then AK_NOALLOC
          else if f \<in> possibleAllocators then AK_FRESH
          else AK_ALLOCATING
      | PHINode vs \<Rightarrow> AK_NOALLOC
      | OtherValue \<Rightarrow> AK_NOALLOC)"

text \<open>The loop over the incoming values of a phi node, keeping the largest kind seen.\<close>

fun phi_loop ::
  "(Function \<Rightarrow> bool) \<Rightarrow> Function set \<Rightarrow> Operand list \<Rightarrow> ArgExpKind \<Rightarrow> ArgExpKind" where
  "phi_loop isA pa [] k = k"
| "phi_loop isA pa (v # vs) k =
     (let cur = classifyArgumentExpression isA pa v
      in phi_loop isA pa vs (if kind_value cur > kind_value k then cur else k))"

definition operand_kind ::
  "(Function \<Rightarrow> bool) \<Rightarrow> Function set \<Rightarrow> Operand \<Rightarrow> ArgExpKind" where
  "operand_kind isA pa o' =
     (case o' of
        PHINode vs \<Rightarrow> phi_loop isA pa vs AK_NOALLOC
      | CallInst f \<Rightarrow> classifyArgumentExpression isA pa o'
      | OtherValue \<Rightarrow> classifyArgumentExpression isA pa o')"

text \<open>
  The loop over the operands of one call, with its two counters
  \<open>(nFreshObjects, nAllocatingArgs)\<close>, and the test that prints the warning.
\<close>

fun operands_loop ::
  "(Function \<Rightarrow> bool) \<Rightarrow> Function set \<Rightarrow> Operand list \<Rightarrow> nat \<times> nat \<Rightarrow> nat \<times> nat" where
  "operands_loop isA pa [] c = c"
| "operands_loop isA pa (v # vs) (nFreshObjects, nAllocatingArgs) =
     (let k = operand_kind isA pa v
      in operands_loop isA pa vs
           (if kind_value k \<ge> kind_value AK_FRESH then nFreshObjects + 1 else nFreshObjects,
            if kind_value k \<ge> kind_value AK_ALLOCATING then nAllocatingArgs + 1
            else nAllocatingArgs))"

definition suspicious_call ::
  "(Function \<Rightarrow> bool) \<Rightarrow> Function set \<Rightarrow> Operand list \<Rightarrow> bool" where
  "suspicious_call isA pa operands =
     (case operands_loop isA pa operands (0, 0) of
        (nFreshObjects, nAllocatingArgs) \<Rightarrow> nAllocatingArgs \<ge> 2 \<and> nFreshObjects \<ge> 1)"

text \<open>
  The classification as the specification words it, to be compared with the scanner: an
  operand that is a direct call to an allocating function is ALLOCATING, and FRESH when
  the callee is a possible allocator; a phi node gets the maximum of the classifications
  of its incoming values, which are classified by these same rules; everything else is
  NOALLOC.  The kinds are written as their numbers 0, 1 and 2.
\<close>

fun spec_kind :: "(Function \<Rightarrow> bool) \<Rightarrow> Function set \<Rightarrow> Operand \<Rightarrow> nat" where
  "spec_kind isA pa (CallInst (Some f)) = (if isA f then (if f \<in> pa then 2 else 1) else 0)"
| "spec_kind isA pa (CallInst None) = 0"
| "spec_kind isA pa (PHINode vs) = Max (set (0 # map (spec_kind isA pa) vs))"
| "spec_kind isA pa OtherValue = 0"

definition spec_reports :: "(Function \<Rightarrow> bool) \<Rightarrow> Function set \<Rightarrow> Operand list \<Rightarrow> bool" where
  "spec_reports isA pa operands =
     (2 \<le> length (filter (\<lambda>v. 1 \<le> spec_kind isA pa v) operands) \<and>
      1 \<le> length (filter (\<lambda>v. spec_kind isA pa v = 2) operands))"

text \<open>
  The classification that stops at the incoming values of a phi node: an incoming value
  counts for what it is as a direct call, and an incoming value that is itself a phi node
  counts as NOALLOC.
\<close>

fun direct_kind :: "(Function \<Rightarrow> bool) \<Rightarrow> Function set \<Rightarrow> Operand \<Rightarrow> nat" where
  "direct_kind isA pa (CallInst (Some f)) = (if isA f then (if f \<in> pa then 2 else 1) else 0)"
| "direct_kind isA pa v = 0"

fun one_level_kind :: "(Function \<Rightarrow> bool) \<Rightarrow> Function set \<Rightarrow> Operand \<Rightarrow> nat" where
  "one_level_kind isA pa (PHINode vs) = Max (set (0 # map (direct_kind isA pa) vs))"
| "one_level_kind isA pa v = direct_kind isA pa v"

definition one_level_reports ::
  "(Function \<Rightarrow> bool) \<Rightarrow> Function set \<Rightarrow> Operand list \<Rightarrow> bool" where
  "one_level_reports isA pa operands =
     (2 \<le> length (filter (\<lambda>v. 1 \<le> one_level_kind isA pa v) operands) \<and>
      1 \<le> length (filter (\<lambda>v. one_level_kind isA pa v = 2) operands))"

text \<open>An operand that is a phi node with a phi node among its incoming values.\<close>

fun is_phi :: "Operand \<Rightarrow> bool" where
  "is_phi (PHINode vs) = True"
| "is_phi v = False"

fun phi_of_phi :: "Operand \<Rightarrow> bool" where
  "phi_of_phi (PHINode vs) = list_ex is_phi vs"
| "phi_of_phi v = False"

text \<open>
  Two calls on which the scanner is run.  Function 9 does not allocate, every other
  function does, and function 1 is the one possible allocator.  The first call passes an
  allocating call, a phi node over a fresh call, and two other operands; the second
  passes an allocating call, a phi node whose incoming value is a phi node over a fresh
  call (as a conditional expression nested in a conditional expression gives), and the
  called function.
\<close>

definition flat_call :: "Operand list" where
  "flat_call =
     [CallInst (Some 2), PHINode [OtherValue, CallInst (Some 1)], CallInst None, OtherValue]"

definition nested_call :: "Operand list" where
  "nested_call =
     [CallInst (Some 2), PHINode [PHINode [CallInst (Some 1), OtherValue], OtherValue],
      OtherValue]"

section \<open>The adaptive refinement controller (FunctionChecker::checkFunction, public)\<close>

text \<open>
  One run of the private \<open>checkFunction\<close> is seen here through what the controller reads of
  it: the messages it sent to the line messenger and the final value of
  \<open>refinableInfos\<close>.  The predicates \<open>avoidIntGuardsFor\<close> and \<open>avoidSEXPGuardsFor\<close> are
  declared outside the sources and are parameters.  The messenger's \<open>clear\<close> is not among
  the sources either; following the specification it discards the messages accumulated
  for the function so far, and \<open>newFunction\<close> starts the function with none.
\<close>

definition restartable :: "bool \<Rightarrow> bool \<Rightarrow> bool \<Rightarrow> bool \<Rightarrow> bool" where
  "restartable avoidInt avoidSEXP intGuardsEnabled sexpGuardsEnabled =
     ((\<not> intGuardsEnabled \<and> \<not> avoidInt) \<or> (\<not> sexpGuardsEnabled \<and> \<not> avoidSEXP))"

record 'm controller =
  msg_buffer :: "'m list"
  runs :: "(bool \<times> bool) list"
  final_int :: bool
  final_sexp :: bool

function checkFunction_loop ::
  "bool \<Rightarrow> bool \<Rightarrow> (bool \<Rightarrow> bool \<Rightarrow> 'm list \<times> nat) \<Rightarrow> bool \<Rightarrow> bool \<Rightarrow> 'm list \<Rightarrow>
   (bool \<times> bool) list \<Rightarrow> 'm controller" where
  "checkFunction_loop avoidInt avoidSEXP run intGuardsEnabled sexpGuardsEnabled buf done =
     (case run intGuardsEnabled sexpGuardsEnabled of
        (emitted, refinableInfos) \<Rightarrow>
          if restartable avoidInt avoidSEXP intGuardsEnabled sexpGuardsEnabled
             \<and> refinableInfos > 0
          then
            (if \<not> intGuardsEnabled \<and> \<not> avoidInt then
               checkFunction_loop avoidInt avoidSEXP run True sexpGuardsEnabled []
                 (done @ [(intGuardsEnabled, sexpGuardsEnabled)])
             else if \<not> sexpGuardsEnabled \<and> \<not> avoidSEXP then
               checkFunction_loop avoidInt avoidSEXP run intGuardsEnabled True []
                 (done @ [(intGuardsEnabled, sexpGuardsEnabled)])
             else
               checkFunction_loop avoidInt avoidSEXP run intGuardsEnabled sexpGuardsEnabled []
                 (done @ [(intGuardsEnabled, sexpGuardsEnabled)]))
          else
            \<lparr> msg_buffer = buf @ emitted,
              runs = done @ [(intGuardsEnabled, sexpGuardsEnabled)],
              final_int = intGuardsEnabled, final_sexp = sexpGuardsEnabled \<rparr>)"
  by pat_completeness auto
termination
  by (relation "measure (\<lambda>(avoidInt, avoidSEXP, run, ig, sg, buf, done).
        (if \<not> ig \<and> \<not> avoidInt then 1 else 0) + (if \<not> sg \<and> \<not> avoidSEXP then 1 else 0))")
     (auto simp: restartable_def)

declare checkFunction_loop.simps [simp del]

definition checkFunction ::
  "bool \<Rightarrow> bool \<Rightarrow> (bool \<Rightarrow> bool \<Rightarrow> 'm list \<times> nat) \<Rightarrow> 'm controller" where
  "checkFunction avoidInt avoidSEXP run =
     checkFunction_loop avoidInt avoidSEXP run False False [] []"

text \<open>
  The escalation as the specification words it: the baseline, then integer guards unless
  the function is on their avoid list, then SEXP guards unless it is on theirs; the
  controller stops at the first of these runs with no refinable finding, or at the last.
\<close>

definition spec_precisions :: "bool \<Rightarrow> bool \<Rightarrow> (bool \<times> bool) list" where
  "spec_precisions avoidInt avoidSEXP =
     (False, False) #
     (if avoidInt then [] else [(True, False)]) @
     (if avoidSEXP then [] else [(\<not> avoidInt, True)])"

fun spec_schedule :: "(bool \<Rightarrow> bool \<Rightarrow> 'm list \<times> nat) \<Rightarrow> (bool \<times> bool) list \<Rightarrow> (bool \<times> bool) list" where
  "spec_schedule run [] = []"
| "spec_schedule run [c] = [c]"
| "spec_schedule run (c # d # cs) =
     (if snd (run (fst c) (snd c)) = 0 then [c] else c # spec_schedule run (d # cs))"

section \<open>Abstract states (BcheckStateTy)\<close>

text \<open>
  Local slots, basic blocks and instructions are identified by their addresses, here
  numbers; a null pointer to a slot is \<open>None\<close>.
\<close>

type_synonym AllocaInst = nat
type_synonym BasicBlock = nat
type_synonym Instruction = nat
type_synonym size_t = "64 word"

text \<open>
  The texts given to the line messenger.  The first group is sent by the fresh-variables
  transfer functions; \<open>M_other\<close> stands for the messages of the handlers whose sources
  are absent.
\<close>

datatype Message =
    M_protect_stack_too_deep
  | M_unprotect_more nat nat
  | M_unsupported_unprotect
  | M_allocating_argument string string
  | M_unprotected_variable AllocaInst string
  | M_fresh_pointer string AllocaInst "nat option"
  | M_may_destroy_argument string AllocaInst "nat option"
  | M_restore_higher_depth
  | M_manipulates_PPStackTop
  | M_address_taken AllocaInst
  | M_count_negative AllocaInst
  | M_other string

text \<open>
  Modelled from the spec: \<open>LineInfoTy\<close>, \<open>DelayedLineMessenger\<close> and \<open>LineMessenger\<close> are
  declared in linemsg.h, which is not among the sources.  A line is a message with the
  instruction it is reported at (none for a message given a null instruction); the lines
  are interned, so that a pointer to a line stands for the line.  A delayed messenger is
  the ordered collection of its pending lines; the line messenger is the sequence of the
  lines given to \<open>info\<close>.
\<close>

type_synonym LineInfoTy = "Message \<times> Instruction option"
type_synonym DelayedLineMessenger = "LineInfoTy list"

text \<open>
  Modelled from the spec: \<open>BalanceStateTy\<close> is declared in balance.h, which is not among
  the sources; its fields are the ones the hash and the equality of part_000 read, with
  the types the specification's data model gives them.
\<close>

datatype CountState = CS_NONE | CS_EXACT | CS_DIFF

record BalanceStateTy =
  depth :: int
  savedDepth :: int
  count :: int
  countState :: CountState
  counterVar :: "AllocaInst option"
  topSaveVar :: "AllocaInst option"
  balance_confused :: bool

datatype IntGuardState = IGS_ZERO | IGS_NONZERO | IGS_UNKNOWN

datatype SEXPGuardState = SGS_NIL | SGS_SYMBOL | SGS_NONNIL | SGS_UNKNOWN

record SEXPGuardTy =
  state :: SEXPGuardState
  symbolName :: string

text \<open>
  The ordered maps (\<open>std::map\<close>) are lists of their entries in iteration order, which is
  the order of the keys; two such maps are equal when they hold the same entries.
  Modelled from the spec: \<open>FreshVarsTy\<close> is declared in freshvars.h, which is not among
  the sources; \<open>vars\<close> is an ordered mapping from slots to protect counts, \<open>condMsgs\<close> a
  mapping from slots to pending lines, iterated in the order of the keys as well,
  \<open>pstack\<close> a vector whose last element is the top, and \<open>confused\<close> a flag.
\<close>

type_synonym IntGuardsTy = "(AllocaInst \<times> IntGuardState) list"
type_synonym SEXPGuardsTy = "(AllocaInst \<times> SEXPGuardTy) list"
type_synonym FreshVarsVarsTy = "(AllocaInst \<times> int) list"
type_synonym ConditionalMessagesTy = "(AllocaInst \<times> DelayedLineMessenger) list"
type_synonym VarsVectorTy = "AllocaInst option list"

record FreshVarsTy =
  vars :: FreshVarsVarsTy
  condMsgs :: ConditionalMessagesTy
  pstack :: VarsVectorTy
  confused :: bool

record BcheckStateTy =
  bb :: BasicBlock
  balance :: BalanceStateTy
  intGuards :: IntGuardsTy
  sexpGuards :: SEXPGuardsTy
  freshVars :: FreshVarsTy
  hashcode :: size_t

subsection \<open>BcheckStateTy::hash\<close>

text \<open>
  \<open>hash_combine\<close> is declared in common.h, which is not among the sources: it is a
  parameter, a function of the running hash and of the value combined into it.  The
  values are tagged with the type they are hashed at.
\<close>

datatype hval =
    H_block BasicBlock
  | H_int int
  | H_countState CountState
  | H_size nat
  | H_var AllocaInst
  | H_intState IntGuardState
  | H_sexpState SEXPGuardState
  | H_string string
  | H_line LineInfoTy
  | H_slot "AllocaInst option"

type_synonym hash_combine = "size_t \<Rightarrow> hval \<Rightarrow> size_t"

fun hash_intGuards :: "hash_combine \<Rightarrow> IntGuardsTy \<Rightarrow> size_t \<Rightarrow> size_t" where
  "hash_intGuards hc [] res = res"
| "hash_intGuards hc ((var, s) # gs) res =
     hash_intGuards hc gs (hc (hc res (H_var var)) (H_intState s))"

fun hash_sexpGuards :: "hash_combine \<Rightarrow> SEXPGuardsTy \<Rightarrow> size_t \<Rightarrow> size_t" where
  "hash_sexpGuards hc [] res = res"
| "hash_sexpGuards hc ((var, g) # gs) res =
     (let res1 = hc (hc res (H_var var)) (H_sexpState (state g));
          res2 = (if state g = SGS_SYMBOL then hc res1 (H_string (symbolName g)) else res1)
      in hash_sexpGuards hc gs res2)"

fun hash_vars :: "hash_combine \<Rightarrow> FreshVarsVarsTy \<Rightarrow> size_t \<Rightarrow> size_t" where
  "hash_vars hc [] res = res"
| "hash_vars hc ((var, pcount) # fs) res =
     hash_vars hc fs (hc (hc res (H_var var)) (H_int pcount))"

fun hash_lines :: "hash_combine \<Rightarrow> LineInfoTy list \<Rightarrow> size_t \<Rightarrow> size_t" where
  "hash_lines hc [] res = res"
| "hash_lines hc (l # ls) res = hash_lines hc ls (hc res (H_line l))"

fun hash_condMsgs :: "hash_combine \<Rightarrow> ConditionalMessagesTy \<Rightarrow> size_t \<Rightarrow> size_t" where
  "hash_condMsgs hc [] res = res"
| "hash_condMsgs hc ((var, msg) # ms) res =
     hash_condMsgs hc ms (hash_lines hc msg (hc res (H_size (length msg))))"

fun hash_pstack :: "hash_combine \<Rightarrow> VarsVectorTy \<Rightarrow> size_t \<Rightarrow> size_t" where
  "hash_pstack hc [] res = res"
| "hash_pstack hc (var # vs) res = hash_pstack hc vs (hc res (H_slot var))"

definition hash :: "hash_combine \<Rightarrow> BcheckStateTy \<Rightarrow> BcheckStateTy" where
  "hash hc this =
     (let res = 0;
          res = hc res (H_block (bb this));
          res = hc res (H_int (depth (balance this)));
          res = hc res (H_int (count (balance this)));
          res = hc res (H_int (savedDepth (balance this)));
          res = hc res (H_countState (countState (balance this)));
          res = hc res (H_size (length (intGuards this)));
          res = hash_intGuards hc (intGuards this) res;
          res = hc res (H_size (length (sexpGuards this)));
          res = hash_sexpGuards hc (sexpGuards this) res;
          res = hc res (H_size (length (vars (freshVars this))));
          res = hash_vars hc (vars (freshVars this)) res;
          res = hc res (H_size (length (condMsgs (freshVars this))));
          res = hash_condMsgs hc (condMsgs (freshVars this)) res;
          res = hc res (H_size (length (pstack (freshVars this))));
          res = hash_pstack hc (pstack (freshVars this)) res
      in this \<lparr> hashcode := res \<rparr>)"

subsection \<open>BcheckStateTy\_equal\<close>

text \<open>
  With \<open>FULL_COMPARISON\<close> set, as it is.  Two pointers to the same state compare equal
  without looking at the fields; a state agrees with itself on every field, so that case
  is the conjunction below as well.
\<close>

definition BcheckStateTy_equal :: "BcheckStateTy \<Rightarrow> BcheckStateTy \<Rightarrow> bool" where
  "BcheckStateTy_equal lhs rhs =
     (bb lhs = bb rhs \<and>
      depth (balance lhs) = depth (balance rhs) \<and>
      savedDepth (balance lhs) = savedDepth (balance rhs) \<and>
      count (balance lhs) = count (balance rhs) \<and>
      countState (balance lhs) = countState (balance rhs) \<and>
      counterVar (balance lhs) = counterVar (balance rhs) \<and>
      balance_confused (balance lhs) = balance_confused (balance rhs) \<and>
      topSaveVar (balance lhs) = topSaveVar (balance rhs) \<and>
      intGuards lhs = intGuards rhs \<and> sexpGuards lhs = sexpGuards rhs \<and>
      vars (freshVars lhs) = vars (freshVars rhs) \<and>
      condMsgs (freshVars lhs) = condMsgs (freshVars rhs) \<and>
      pstack (freshVars lhs) = pstack (freshVars rhs) \<and>
      confused (freshVars lhs) = confused (freshVars rhs))"


subsection \<open>The visited set and the work-list\<close>

text \<open>
  \<open>doneSet\<close> is a \<open>std::unordered_set\<close> of pointers to states under the cached hash and
  the equality above: its \<open>insert\<close> finds an element when one with the same hash code
  compares equal.  \<open>workList\<close> is a stack, its top first.  \<open>deleted\<close> records the states
  given to \<open>delete\<close>.
\<close>

record Globals =
  doneSet :: "BcheckStateTy list"
  workList :: "BcheckStateTy list"
  totalStates :: nat
  deleted :: "BcheckStateTy list"

definition doneSet_find :: "BcheckStateTy list \<Rightarrow> BcheckStateTy \<Rightarrow> bool" where
  "doneSet_find ds this =
     list_ex (\<lambda>e. hashcode e = hashcode this \<and> BcheckStateTy_equal e this) ds"

definition add :: "hash_combine \<Rightarrow> BcheckStateTy \<Rightarrow> Globals \<Rightarrow> bool \<times> Globals" where
  "add hc this g =
     (let this' = hash hc this
      in if \<not> doneSet_find (doneSet g) this'
         then (True, g \<lparr> doneSet := this' # doneSet g, workList := this' # workList g \<rparr>)
         else (False, g \<lparr> deleted := this' # deleted g \<rparr>))"


definition clone :: "BcheckStateTy \<Rightarrow> BasicBlock \<Rightarrow> BcheckStateTy" where
  "clone this newBB = this \<lparr> bb := newBB, hashcode := 0 \<rparr>"

definition initState :: "BasicBlock \<Rightarrow> BcheckStateTy" where
  "initState entry =
     \<lparr> bb = entry,
       balance = \<lparr> depth = 0, savedDepth = -1, count = 0, countState = CS_NONE,
                   counterVar = None, topSaveVar = None, balance_confused = False \<rparr>,
       intGuards = [], sexpGuards = [],
       freshVars = \<lparr> vars = [], condMsgs = [], pstack = [], confused = False \<rparr>,
       hashcode = 0 \<rparr>"



section \<open>The work-list engine (FunctionChecker::checkFunction, private)\<close>

text \<open>
  What the engine threads through the handlers of one state: the local copy \<open>s\<close> of the
  state taken from the work-list, the lines given to the messenger, and the counter
  \<open>refinableInfos\<close>.
\<close>

record Ctx =
  state_s :: BcheckStateTy
  msg_info :: "LineInfoTy list"
  refinableInfos :: nat


record Flags =
  intGuardsEnabled :: bool
  sexpGuardsEnabled :: bool
  balanceCheckingEnabled :: bool
  freshVarsCheckingEnabled :: bool
























section \<open>The fresh-variables transfer functions (src/unnamed/part\_001)\<close>

subsection \<open>What the transfer functions read of the program\<close>

text \<open>
  The transfer functions inspect the instruction through the LLVM interface and through
  the module's summaries.  The model gives them a view of the instruction that holds the
  answers to the questions they ask, and nothing else.

  A pointer operand is a local slot, the global \<open>R_PPStackTop\<close>, an in-bounds element
  address computed from the value loaded from a local slot, or anything else.
\<close>

datatype Pointer =
    P_alloca AllocaInst
  | P_ppStackTop
  | P_element_of AllocaInst
  | P_other

text \<open>
  A function as resolved by \<open>CalledModuleTy::getCalledFunction\<close>, with the summaries the
  transfer functions ask for: \<open>isCAllocating\<close>, \<open>isPossibleCAllocator\<close>,
  \<open>protectsArguments\<close>, the callee-safe and callee-protect answers of \<open>CProtectInfo\<close>
  (for the function and for the parameters listed), the number of its arguments, and for
  each parameter of its type whether it is an \<open>SEXP\<close>.  All of these are defined outside
  the sources.
\<close>

record CalledFunctionTy =
  fun_name :: string
  isCAllocating :: bool
  isPossibleCAllocator :: bool
  protectsArguments :: bool
  isCalleeSafe :: bool
  calleeSafeArgs :: "nat set"
  isCalleeProtect :: bool
  calleeProtectArgs :: "nat set"
  fun_arg_size :: nat
  paramIsSEXP :: "bool list"

text \<open>
  A user of a value: a store (with its pointer operand), a call site, or another
  instruction.  Of a call site the transfer functions read the function called directly
  (its name, and whether \<open>isSetterFunction\<close> holds of it), the number of arguments, the
  local slot loaded by the first argument, whether the second argument is the value whose
  users are walked, the function resolved by the module, and the index of the first
  argument that is the value.
\<close>

record CallUser =
  cu_callee :: "(string \<times> bool) option"
  cu_arg_size :: nat
  cu_first_arg :: "AllocaInst option"
  cu_second_is_value :: bool
  cu_resolved :: "CalledFunctionTy option"
  cu_arg_index :: "nat option"

datatype User = U_store Pointer | U_call CallUser | U_other

datatype Shape = LoadOf Pointer | ConstantInt nat | OtherShape

record Value =
  shape :: Shape
  users :: "User list"
  called :: "CalledFunctionTy option"

text \<open>The liveness of the local slots at an instruction (liveness.h, outside the sources).\<close>

record VarsLiveness =
  possiblyUsed :: "AllocaInst set"
  possiblyKilled :: "AllocaInst set"
  definitelyUsed :: "AllocaInst set"

record CallInstr =
  c_id :: Instruction
  c_target :: "CalledFunctionTy option"
  c_args :: "Value list"
  c_users :: "User list"
  c_live :: "VarsLiveness option"

record LoadInstr =
  l_id :: Instruction
  l_pointer :: Pointer
  l_users :: "User list"
  l_live :: "VarsLiveness option"

text \<open>
  Of a store: the slot found by \<open>isStoreToStructureElement\<close> when the store writes an
  element of the node stack, the slot that \<open>aliasesVariable\<close> finds for it, the pointer
  operand and the value operand.
\<close>

record StoreInstr =
  s_id :: Instruction
  s_node_stack :: "AllocaInst option"
  s_alias :: "AllocaInst option"
  s_pointer :: Pointer
  s_value :: Value

datatype InstructionView =
    I_call CallInstr
  | I_load LoadInstr
  | I_store StoreInstr
  | I_other

text \<open>
  Facts of the function analysed: of a local slot whether it is an \<open>SEXP\<close>, the kinds of
  its users, whether its name is empty, and the slot loaded by the value of its only
  store (\<open>findOnlyStoreTo\<close>); and the constant \<open>MAX_PSTACK_SIZE\<close> of freshvars.h, which is
  not among the sources.
\<close>

datatype VarUser = VU_load | VU_store | VU_other

record FunctionView =
  MAX_PSTACK_SIZE :: nat
  isSEXP :: "AllocaInst \<Rightarrow> bool"
  var_users :: "AllocaInst \<Rightarrow> VarUser list"
  name_is_empty :: "AllocaInst \<Rightarrow> bool"
  only_store_loads :: "AllocaInst \<Rightarrow> AllocaInst option"

text \<open>
  What the transfer functions change: the fresh-variables state, the lines given to
  \<open>msg.info\<close>, the counter \<open>refinableInfos\<close> and the cache of \<open>isVarCheckedFresh\<close>.
\<close>

record FreshCtx =
  fresh :: FreshVarsTy
  infos :: "LineInfoTy list"
  refinable :: nat
  checkedVarsCache :: "AllocaInst \<rightharpoonup> bool"

text \<open>
  A transfer function returns, or stops the checker at a failed \<open>myassert\<close>, or never
  returns.
\<close>

datatype 'a outcome = Returns 'a | AssertionFails | NeverReturns

fun obind :: "'a outcome \<Rightarrow> ('a \<Rightarrow> 'b outcome) \<Rightarrow> 'b outcome" where
  "obind (Returns x) f = f x"
| "obind AssertionFails f = AssertionFails"
| "obind NeverReturns f = NeverReturns"

definition QUIET_WHEN_CONFUSED :: bool where
  "QUIET_WHEN_CONFUSED = True"

subsection \<open>Ordered maps\<close>

text \<open>\<open>find\<close>, \<open>erase\<close>, \<open>insert\<close> (which keeps an entry already there) and assignment.\<close>

definition map_find :: "AllocaInst \<Rightarrow> (AllocaInst \<times> 'v) list \<Rightarrow> 'v option" where
  "map_find k m = map_of m k"

definition map_erase :: "AllocaInst \<Rightarrow> (AllocaInst \<times> 'v) list \<Rightarrow> (AllocaInst \<times> 'v) list" where
  "map_erase k m = filter (\<lambda>e. fst e \<noteq> k) m"

fun map_insert :: "AllocaInst \<Rightarrow> 'v \<Rightarrow> (AllocaInst \<times> 'v) list \<Rightarrow> (AllocaInst \<times> 'v) list" where
  "map_insert k v [] = [(k, v)]"
| "map_insert k v (e # m) =
     (if k < fst e then (k, v) # e # m
      else if k = fst e then e # m
      else e # map_insert k v m)"

definition map_assign :: "AllocaInst \<Rightarrow> 'v \<Rightarrow> (AllocaInst \<times> 'v) list \<Rightarrow> (AllocaInst \<times> 'v) list" where
  "map_assign k v m = map (\<lambda>e. if fst e = k then (k, v) else e) m"

subsection \<open>The helpers\<close>

text \<open>\<open>pruneFreshVars\<close>: the body of the loop for one entry of \<open>vars\<close>, and the loop.\<close>

definition prune_one :: "VarsLiveness \<Rightarrow> AllocaInst \<Rightarrow> FreshCtx \<Rightarrow> FreshCtx" where
  "prune_one lvars var c =
     (if var \<notin> possiblyUsed lvars then
        c \<lparr> fresh := (fresh c) \<lparr> vars := map_erase var (vars (fresh c)),
                                 condMsgs := map_erase var (condMsgs (fresh c)) \<rparr> \<rparr>
      else if var \<notin> possiblyKilled lvars then
        (case map_find var (condMsgs (fresh c)) of
           Some dmsg \<Rightarrow>
             c \<lparr> infos := infos c @ dmsg, refinable := refinable c + 1,
                 fresh := (fresh c) \<lparr> condMsgs := map_erase var (condMsgs (fresh c)) \<rparr> \<rparr>
         | None \<Rightarrow> c)
      else c)"

definition pruneFreshVars :: "VarsLiveness option \<Rightarrow> FreshCtx \<Rightarrow> FreshCtx outcome" where
  "pruneFreshVars live c =
     (if vars (fresh c) = [] then Returns c
      else case live of
             None \<Rightarrow> AssertionFails
           | Some lvars \<Rightarrow> Returns (fold (prune_one lvars) (map fst (vars (fresh c))) c))"

definition unprotectAll :: "FreshVarsTy \<Rightarrow> FreshVarsTy" where
  "unprotectAll fv = fv \<lparr> pstack := [], vars := map (\<lambda>e. (fst e, 0)) (vars fv) \<rparr>"

definition issueConditionalMessage ::
  "Instruction \<Rightarrow> VarsLiveness option \<Rightarrow> AllocaInst \<Rightarrow> Message \<Rightarrow> FreshCtx \<Rightarrow> FreshCtx" where
  "issueConditionalMessage inst live var message c =
     (if (case live of Some vlive \<Rightarrow> var \<in> definitelyUsed vlive | None \<Rightarrow> False) then
        c \<lparr> infos := infos c @ [(message, Some inst)], refinable := refinable c + 1 \<rparr>
      else
        (case map_find var (condMsgs (fresh c)) of
           None \<Rightarrow>
             c \<lparr> fresh := (fresh c)
                   \<lparr> condMsgs := map_insert var [(message, Some inst)] (condMsgs (fresh c)) \<rparr> \<rparr>
         | Some dmsg \<Rightarrow>
             c \<lparr> fresh := (fresh c)
                   \<lparr> condMsgs := map_assign var (dmsg @ [(message, Some inst)])
                                    (condMsgs (fresh c)) \<rparr> \<rparr>))"

text \<open>\<open>isVarCheckedFresh\<close>, without and with the cache.\<close>

definition isVarCheckedFresh_users :: "FunctionView \<Rightarrow> AllocaInst \<Rightarrow> bool" where
  "isVarCheckedFresh_users V var = list_all (\<lambda>u. u = VU_load \<or> u = VU_store) (var_users V var)"

definition isVarCheckedFresh :: "FunctionView \<Rightarrow> AllocaInst \<Rightarrow> FreshCtx \<Rightarrow> bool \<times> FreshCtx" where
  "isVarCheckedFresh V var c =
     (if \<not> isSEXP V var then (False, c)
      else case checkedVarsCache c var of
             Some b \<Rightarrow> (b, c)
           | None \<Rightarrow>
               (let isChecked = isVarCheckedFresh_users V var;
                    c1 = (if \<not> isChecked then c \<lparr> infos := infos c @ [(M_address_taken var, None)] \<rparr>
                          else c)
                in (isChecked, c1 \<lparr> checkedVarsCache := (checkedVarsCache c1)(var \<mapsto> isChecked) \<rparr>)))"

text \<open>
  \<open>unprotectOne\<close>.  The protect stack is not empty when it is called.  The message about a
  count gone negative is a debug message, which is not modelled; the counter
  \<open>refinableInfos\<close> is incremented there.
\<close>

definition unprotectOne :: "FreshCtx \<Rightarrow> FreshCtx" where
  "unprotectOne c =
     (let var = last (pstack (fresh c));
          c1 = c \<lparr> fresh := (fresh c) \<lparr> pstack := butlast (pstack (fresh c)) \<rparr> \<rparr>
      in case var of
           None \<Rightarrow> c1
         | Some v \<Rightarrow>
             (case map_find v (vars (fresh c1)) of
                None \<Rightarrow> c1
              | Some n \<Rightarrow>
                  (let nProtects = n - 1
                   in if nProtects < 0 then
                        c1 \<lparr> refinable := refinable c1 + 1,
                             fresh := (fresh c1) \<lparr> vars := map_assign v 0 (vars (fresh c1)) \<rparr> \<rparr>
                      else
                        c1 \<lparr> fresh := (fresh c1)
                               \<lparr> vars := map_assign v nProtects (vars (fresh c1)) \<rparr> \<rparr>)))"

text \<open>The loops \<open>while (unprotectCount-- > 0) unprotectOne(...)\<close>.\<close>

fun unprotect_loop :: "nat \<Rightarrow> FreshCtx \<Rightarrow> FreshCtx" where
  "unprotect_loop 0 c = c"
| "unprotect_loop (Suc k) c = unprotect_loop k (unprotectOne c)"

text \<open>The slot found for the argument of a protect or preserve call.\<close>

definition loaded_var :: "Value \<Rightarrow> AllocaInst option" where
  "loaded_var arg = (case shape arg of LoadOf (P_alloca v) \<Rightarrow> Some v | _ \<Rightarrow> None)"

fun first_store_var :: "User list \<Rightarrow> AllocaInst option" where
  "first_store_var [] = None"
| "first_store_var (U_store p # us) = (case p of P_alloca v \<Rightarrow> Some v | _ \<Rightarrow> None)"
| "first_store_var (u # us) = first_store_var us"

text \<open>
  The test made on a call site that uses a value, in the three places where the setter
  heuristic is applied: the call is to a setter function with more than one argument,
  whose first argument loads a slot that is not fresh (absent from \<open>vars\<close>, or protected).
\<close>

definition setter_first_arg :: "CallUser \<Rightarrow> AllocaInst option" where
  "setter_first_arg cu =
     (case cu_callee cu of
        None \<Rightarrow> None
      | Some (name, isSetterFunction) \<Rightarrow>
          if cu_arg_size cu > 1 \<and> isSetterFunction then cu_first_arg cu else None)"

definition not_fresh :: "FreshVarsVarsTy \<Rightarrow> AllocaInst \<Rightarrow> bool" where
  "not_fresh vs firstArg =
     (case map_find firstArg vs of None \<Rightarrow> True | Some n \<Rightarrow> n > 0)"

definition setter_protects :: "FreshVarsVarsTy \<Rightarrow> AllocaInst \<Rightarrow> User \<Rightarrow> bool" where
  "setter_protects vs var u =
     (case u of
        U_call cu \<Rightarrow>
          (case setter_first_arg cu of
             None \<Rightarrow> False
           | Some firstArg \<Rightarrow> firstArg \<noteq> var \<and> not_fresh vs firstArg)
      | _ \<Rightarrow> False)"

subsection \<open>handleCall\<close>

text \<open>
  The blocks of \<open>handleCall\<close> are given one by one.  A block that can leave the function
  returns the context paired with \<open>True\<close> when it did.

  The call to \<open>R_PreserveObject\<close>.  \<open>getArgument(0)\<close> of a call without arguments fails
  an assertion of the LLVM interface.
\<close>

definition preserve_block :: "CallInstr \<Rightarrow> FreshCtx \<Rightarrow> FreshCtx outcome" where
  "preserve_block ci c =
     (case c_args ci of
        [] \<Rightarrow> AssertionFails
      | arg # _ \<Rightarrow>
          (let var = loaded_var arg;
               var = (if var = None then first_store_var (users arg) else var);
               var = (if var = None then first_store_var (c_users ci) else var)
           in case var of
                Some v \<Rightarrow> Returns (c \<lparr> fresh := (fresh c)
                                        \<lparr> vars := map_erase v (vars (fresh c)) \<rparr> \<rparr>)
              | None \<Rightarrow> Returns c))"

text \<open>
  The slot protected by a call to \<open>Rf_protect\<close>, \<open>R_ProtectWithIndex\<close> or \<open>R_Reprotect\<close>,
  up to the test of \<open>isVarCheckedFresh\<close>.
\<close>

definition protected_var :: "FunctionView \<Rightarrow> CallInstr \<Rightarrow> Value \<Rightarrow> FreshCtx \<Rightarrow>
    AllocaInst option \<times> FreshCtx" where
  "protected_var V ci arg c =
     (let var = loaded_var arg;
          (var, c) =
            (if var = None then
               (case first_store_var (users arg) of
                  None \<Rightarrow> (None, c)
                | Some v \<Rightarrow>
                    if list_ex (setter_protects (vars (fresh c)) v) (c_users ci) then
                      (None, c \<lparr> fresh := (fresh c) \<lparr> vars := map_erase v (vars (fresh c)) \<rparr> \<rparr>)
                    else (Some v, c))
             else (var, c));
          var = (if var = None then first_store_var (c_users ci) else var)
      in case var of
           None \<Rightarrow> (None, c)
         | Some v \<Rightarrow>
             (case isVarCheckedFresh V v c of
                (True, c') \<Rightarrow> (Some v, c')
              | (False, c') \<Rightarrow> (None, c')))"

definition reprotect :: "AllocaInst option \<Rightarrow> FreshCtx \<Rightarrow> FreshCtx" where
  "reprotect var c =
     (case var of
        None \<Rightarrow> c
      | Some v \<Rightarrow>
          (case map_find v (vars (fresh c)) of
             Some nProtects \<Rightarrow>
               if nProtects > 0 then c
               else c \<lparr> fresh := (fresh c) \<lparr> vars := map_assign v 1 (vars (fresh c)) \<rparr> \<rparr>
           | None \<Rightarrow>
               c \<lparr> fresh := (fresh c) \<lparr> vars := map_insert v 1 (vars (fresh c)) \<rparr> \<rparr>))"

definition push_protected :: "AllocaInst \<Rightarrow> FreshCtx \<Rightarrow> FreshCtx" where
  "push_protected v c =
     (let c1 = c \<lparr> fresh := (fresh c) \<lparr> pstack := pstack (fresh c) @ [Some v] \<rparr> \<rparr>
      in case map_find v (vars (fresh c1)) of
           Some nProtects \<Rightarrow>
             c1 \<lparr> fresh := (fresh c1)
                    \<lparr> vars := map_assign v (nProtects + 1) (vars (fresh c1)) \<rparr> \<rparr>
         | None \<Rightarrow>
             c1 \<lparr> fresh := (fresh c1) \<lparr> vars := map_insert v 1 (vars (fresh c1)) \<rparr> \<rparr>)"

definition protect_block ::
  "FunctionView \<Rightarrow> CallInstr \<Rightarrow> string \<Rightarrow> FreshCtx \<Rightarrow> (FreshCtx \<times> bool) outcome" where
  "protect_block V ci name c =
     (case c_args ci of
        [] \<Rightarrow> AssertionFails
      | arg # _ \<Rightarrow>
          (case protected_var V ci arg c of
             (var, c1) \<Rightarrow>
               if name = ''R_Reprotect'' then Returns (reprotect var c1, True)
               else if length (pstack (fresh c1)) = MAX_PSTACK_SIZE V then
                 Returns
                   (c1 \<lparr> fresh := (unprotectAll (fresh c1))
                                    \<lparr> confused := (if QUIET_WHEN_CONFUSED then True
                                                    else confused (fresh c1)) \<rparr>,
                        refinable := refinable c1 + 1,
                        infos := infos c1 @ [(M_protect_stack_too_deep, None)] \<rparr>, True)
               else
                 (case var of
                    Some v \<Rightarrow> Returns (push_protected v c1, True)
                  | None \<Rightarrow>
                      Returns (c1 \<lparr> fresh := (fresh c1)
                                      \<lparr> pstack := pstack (fresh c1) @ [None] \<rparr> \<rparr>, False))))"

text \<open>
  The call to \<open>Rf_unprotect\<close>.  The count is known when the argument loads the counter
  variable of the balance state in the exact count state (the balance state is absent
  when balance checking is disabled), or when the argument is an integer constant, which
  is tested last.  The count of the balance state, an \<open>int\<close>, is converted to
  \<open>uint64_t\<close>.
\<close>

definition unprotect_count :: "BalanceStateTy option \<Rightarrow> Value \<Rightarrow> nat option" where
  "unprotect_count bal arg =
     (let fromCounter =
            (case bal of
               None \<Rightarrow> None
             | Some b \<Rightarrow>
                 (case shape arg of
                    LoadOf (P_alloca cvar) \<Rightarrow>
                      if counterVar b = Some cvar \<and> countState b = CS_EXACT
                      then Some (nat (count b mod 2 ^ 64)) else None
                  | _ \<Rightarrow> None))
      in case shape arg of ConstantInt n \<Rightarrow> Some n | _ \<Rightarrow> fromCounter)"

definition unprotect_block ::
  "BalanceStateTy option \<Rightarrow> CallInstr \<Rightarrow> FreshCtx \<Rightarrow> (FreshCtx \<times> bool) outcome" where
  "unprotect_block bal ci c =
     (case c_args ci of
        [] \<Rightarrow> AssertionFails
      | arg # _ \<Rightarrow>
          (case unprotect_count bal arg of
             Some unprotectCount \<Rightarrow>
               if unprotectCount > length (pstack (fresh c)) then
                 Returns
                   (c \<lparr> infos := infos c @
                          [(M_unprotect_more unprotectCount (length (pstack (fresh c))),
                            Some (c_id ci))],
                        refinable := refinable c + 1,
                        fresh := (fresh c)
                          \<lparr> confused := (if QUIET_WHEN_CONFUSED then True
                                          else confused (fresh c)) \<rparr> \<rparr>, True)
               else Returns (unprotect_loop unprotectCount c, False)
           | None \<Rightarrow>
               Returns
                 (c \<lparr> infos := infos c @ [(M_unsupported_unprotect, Some (c_id ci))],
                      fresh := (unprotectAll (fresh c))
                        \<lparr> confused := (if QUIET_WHEN_CONFUSED then True
                                        else confused (fresh c)) \<rparr> \<rparr>, True)))"

text \<open>The part of \<open>handleCall\<close> under \<open>if (!confused)\<close>.\<close>

definition protection_part ::
  "FunctionView \<Rightarrow> BalanceStateTy option \<Rightarrow> CallInstr \<Rightarrow> CalledFunctionTy \<Rightarrow> FreshCtx \<Rightarrow>
   (FreshCtx \<times> bool) outcome" where
  "protection_part V bal ci tgt c =
     obind (if fun_name tgt = ''R_PreserveObject'' then preserve_block ci c else Returns c)
       (\<lambda>c1.
          obind (if fun_name tgt = ''Rf_protect'' \<or> fun_name tgt = ''R_ProtectWithIndex''
                    \<or> fun_name tgt = ''R_Reprotect''
                 then protect_block V ci (fun_name tgt) c1 else Returns (c1, False))
            (\<lambda>(c2, returned).
               if returned then Returns (c2, True)
               else if fun_name tgt = ''Rf_unprotect'' then unprotect_block bal ci c2
               else Returns (c2, False)))"

text \<open>The check of the arguments that are themselves allocated by a call.\<close>

fun allocating_args_loop ::
  "Instruction \<Rightarrow> CalledFunctionTy \<Rightarrow> Value list \<Rightarrow> nat \<Rightarrow> FreshCtx \<Rightarrow> FreshCtx" where
  "allocating_args_loop inst tgt [] aidx c = c"
| "allocating_args_loop inst tgt (arg # args) aidx c =
     allocating_args_loop inst tgt args (aidx + 1)
       (case called arg of
          None \<Rightarrow> c
        | Some src \<Rightarrow>
            if \<not> isPossibleCAllocator src then c
            else if aidx < fun_arg_size tgt \<and> aidx \<in> calleeSafeArgs tgt then c
            else c \<lparr> infos := infos c @
                         [(M_allocating_argument (fun_name tgt) (fun_name src), Some inst)],
                     refinable := refinable c + 1 \<rparr>)"

definition allocating_args_check :: "CallInstr \<Rightarrow> CalledFunctionTy \<Rightarrow> FreshCtx \<Rightarrow> FreshCtx" where
  "allocating_args_check ci tgt c =
     (if \<not> protectsArguments tgt \<and> \<not> isCalleeSafe tgt
      then allocating_args_loop (c_id ci) tgt (c_args ci) 0 c else c)"

text \<open>The slots passed to the call.\<close>

fun stored_vars :: "User list \<Rightarrow> AllocaInst set" where
  "stored_vars [] = {}"
| "stored_vars (U_store (P_alloca svar) # us) = insert svar (stored_vars us)"
| "stored_vars (u # us) = stored_vars us"

fun passed_vars :: "bool list \<Rightarrow> Value list \<Rightarrow> nat \<Rightarrow> AllocaInst set" where
  "passed_vars params [] i = {}"
| "passed_vars params (arg # args) i =
     (if i < length params \<and> \<not> params ! i then {}
      else case shape arg of
             LoadOf p \<Rightarrow> (case p of P_alloca lvar \<Rightarrow> {lvar} | _ \<Rightarrow> {})
           | _ \<Rightarrow> if length (users arg) = 1 then {} else stored_vars (users arg))
     \<union> passed_vars params args (i + 1)"

text \<open>The loop over \<open>vars\<close> that issues the conditional messages at an allocating call.\<close>

definition report_var ::
  "CallInstr \<Rightarrow> CalledFunctionTy \<Rightarrow> AllocaInst set \<Rightarrow> AllocaInst \<times> int \<Rightarrow> FreshCtx \<Rightarrow> FreshCtx" where
  "report_var ci tgt passedVars e c =
     (if snd e > 0 then c
      else if fst e \<in> passedVars then c
      else issueConditionalMessage (c_id ci) (c_live ci) (fst e)
             (M_unprotected_variable (fst e) (fun_name tgt)) c)"

definition report_fresh_vars :: "CallInstr \<Rightarrow> CalledFunctionTy \<Rightarrow> FreshCtx \<Rightarrow> FreshCtx" where
  "report_fresh_vars ci tgt c =
     (if length (vars (fresh c)) > 0 then
        fold (report_var ci tgt (passed_vars (paramIsSEXP tgt) (c_args ci) 0)) (vars (fresh c)) c
      else c)"

definition handleCall ::
  "FunctionView \<Rightarrow> BalanceStateTy option \<Rightarrow> InstructionView \<Rightarrow> FreshCtx \<Rightarrow> FreshCtx outcome" where
  "handleCall V bal inst c =
     (let is_confused = (QUIET_WHEN_CONFUSED \<and> confused (fresh c))
      in case inst of
           I_call ci \<Rightarrow>
             (case c_target ci of
                None \<Rightarrow> Returns c
              | Some tgt \<Rightarrow>
                  obind (if \<not> is_confused then protection_part V bal ci tgt c
                         else Returns (c, False))
                    (\<lambda>(c1, returned).
                       if returned then Returns c1
                       else if \<not> isCAllocating tgt then Returns c1
                       else
                         (let c2 = allocating_args_check ci tgt c1
                          in if is_confused then Returns c2
                             else obind (pruneFreshVars (c_live ci) c2)
                                    (\<lambda>c3. Returns (report_fresh_vars ci tgt c3)))))
         | _ \<Rightarrow> Returns c)"

subsection \<open>handleLoad\<close>

text \<open>
  The loop over the users of the load.  Its branch for a user that is a store tests
  whether the value operand of the store is the store itself, which never holds, so that
  only the call sites count: the loaded slot leaves \<open>vars\<close> when one of them is a setter
  call whose first argument is another slot that is not fresh.
\<close>

definition load_users_loop :: "AllocaInst \<Rightarrow> User list \<Rightarrow> FreshVarsVarsTy \<Rightarrow> FreshVarsVarsTy" where
  "load_users_loop var us vs =
     (if list_ex (setter_protects vs var) us then map_erase var vs else vs)"

definition fresh_argument ::
  "FunctionView \<Rightarrow> LoadInstr \<Rightarrow> AllocaInst \<Rightarrow> CallUser \<Rightarrow> CalledFunctionTy \<Rightarrow> FreshCtx \<Rightarrow>
   FreshCtx outcome" where
  "fresh_argument V li var cu tgt c =
     (case cu_arg_index cu of
        None \<Rightarrow> AssertionFails
      | Some aidx \<Rightarrow>
          if aidx < fun_arg_size tgt \<and> aidx \<in> calleeProtectArgs tgt then Returns c
          else
            (let nameSuffix = (if name_is_empty V var then Some (aidx + 1) else None);
                 c1 = (if aidx \<ge> fun_arg_size tgt \<or> aidx \<notin> calleeSafeArgs tgt then
                         c \<lparr> infos := infos c @
                                [(M_fresh_pointer (fun_name tgt) var nameSuffix, Some (l_id li))],
                             refinable := refinable c + 1 \<rparr>
                       else c)
             in Returns (issueConditionalMessage (l_id li) (l_live li) var
                           (M_may_destroy_argument (fun_name tgt) var nameSuffix) c1)))"

definition handleLoad ::
  "FunctionView \<Rightarrow> InstructionView \<Rightarrow> FreshCtx \<Rightarrow> FreshCtx outcome" where
  "handleLoad V inst c =
     (if QUIET_WHEN_CONFUSED \<and> confused (fresh c) then Returns c
      else case inst of
        I_load li \<Rightarrow>
          (case l_pointer li of
             P_alloca var \<Rightarrow>
               (let c1 = (case map_find var (condMsgs (fresh c)) of
                            Some dmsg \<Rightarrow>
                              c \<lparr> infos := infos c @ dmsg, refinable := refinable c + 1,
                                  fresh := (fresh c)
                                    \<lparr> condMsgs := map_erase var (condMsgs (fresh c)) \<rparr> \<rparr>
                          | None \<Rightarrow> c)
                in case map_find var (vars (fresh c1)) of
                     None \<Rightarrow> Returns c1
                   | Some nProtects \<Rightarrow>
                       (let c2 = c1 \<lparr> fresh := (fresh c1)
                                    \<lparr> vars := load_users_loop var (l_users li)
                                                 (vars (fresh c1)) \<rparr> \<rparr>
                        in case l_users li of
                             [U_call cu] \<Rightarrow>
                               (case cu_resolved cu of
                                  None \<Rightarrow> Returns c2
                                | Some tgt \<Rightarrow>
                                    if \<not> isCAllocating tgt \<or> protectsArguments tgt
                                       \<or> isCalleeProtect tgt then Returns c2
                                    else if nProtects > 0 then Returns c2
                                    else fresh_argument V li var cu tgt c2)
                           | _ \<Rightarrow> Returns c2))
           | _ \<Rightarrow> Returns c)
      | _ \<Rightarrow> Returns c)"

subsection \<open>handleStore\<close>

text \<open>
  \<open>unfreshAliasedVars\<close>: the walk along the slots whose only store copies another slot.
  It does not end when these copies form a cycle.
\<close>

partial_function (option) alias_walk ::
  "(AllocaInst \<Rightarrow> AllocaInst option) \<Rightarrow> AllocaInst \<Rightarrow> FreshVarsVarsTy \<Rightarrow> FreshVarsVarsTy option" where
  "alias_walk only_store origVar vs =
     (case only_store origVar of
        None \<Rightarrow> Some vs
      | Some v \<Rightarrow> alias_walk only_store v (map_erase v vs))"

declare alias_walk.simps [code]

definition unfreshAliasedVars ::
  "FunctionView \<Rightarrow> StoreInstr \<Rightarrow> FreshVarsVarsTy \<Rightarrow> FreshVarsVarsTy option" where
  "unfreshAliasedVars V si vs =
     (case s_alias si of
        None \<Rightarrow> Some vs
      | Some origVar \<Rightarrow> alias_walk (only_store_loads V) origVar (map_erase origVar vs))"

text \<open>The store to \<open>R_PPStackTop\<close>.\<close>

definition restore_stack_top ::
  "BalanceStateTy option \<Rightarrow> StoreInstr \<Rightarrow> FreshCtx \<Rightarrow> FreshCtx outcome" where
  "restore_stack_top bal si c =
     (let manipulates =
            Returns (c \<lparr> infos := infos c @ [(M_manipulates_PPStackTop, Some (s_id si))],
                         fresh := (fresh c)
                           \<lparr> confused := (if QUIET_WHEN_CONFUSED then True
                                           else confused (fresh c)) \<rparr> \<rparr>)
      in case shape (s_value si) of
           LoadOf (P_alloca saveVar) \<Rightarrow>
             (case bal of
                None \<Rightarrow> manipulates
              | Some b \<Rightarrow>
                  if topSaveVar b = Some saveVar then
                    (let newDepth = savedDepth b;
                         curDepth = int (length (pstack (fresh c)))
                     in if \<not> newDepth \<ge> 0 then AssertionFails
                        else if newDepth > curDepth then
                          Returns
                            (c \<lparr> infos := infos c @ [(M_restore_higher_depth, Some (s_id si))],
                                 fresh := (fresh c)
                                   \<lparr> confused := (if QUIET_WHEN_CONFUSED then True
                                                   else confused (fresh c)) \<rparr> \<rparr>)
                        else if newDepth = curDepth then Returns c
                        else Returns (unprotect_loop (nat (curDepth - newDepth)) c))
                  else manipulates)
         | _ \<Rightarrow> manipulates)"

text \<open>
  The loop over the users of the value stored, when the value is allocated by a call: the
  first user that is a call to a protect function, or a setter call that protects the
  value, decides.
\<close>

datatype store_users_result = Handled_by_call | Implicitly_protected | Fresh_store

fun store_users_loop :: "FreshVarsVarsTy \<Rightarrow> User list \<Rightarrow> store_users_result" where
  "store_users_loop vs [] = Fresh_store"
| "store_users_loop vs (U_call cu # us) =
     (case cu_callee cu of
        None \<Rightarrow> store_users_loop vs us
      | Some (name, isSetterFunction) \<Rightarrow>
          if name = ''Rf_protect'' \<or> name = ''Rf_protectWithIndex'' \<or> name = ''R_Reprotect''
          then Handled_by_call
          else if cu_arg_size cu > 1 \<and> isSetterFunction \<and>
                  (case cu_first_arg cu of
                     None \<Rightarrow> False
                   | Some firstArg \<Rightarrow> not_fresh vs firstArg \<and> \<not> cu_second_is_value cu)
          then Implicitly_protected
          else store_users_loop vs us)"
| "store_users_loop vs (u # us) = store_users_loop vs us"

definition make_fresh :: "AllocaInst \<Rightarrow> FreshVarsVarsTy \<Rightarrow> FreshVarsVarsTy" where
  "make_fresh var vs =
     (case map_find var vs of
        None \<Rightarrow> map_insert var 0 vs
      | Some n \<Rightarrow> map_assign var 0 vs)"

text \<open>The store to a local slot, after the conditional messages of the slot are erased.\<close>

definition store_to_var ::
  "FunctionView \<Rightarrow> StoreInstr \<Rightarrow> AllocaInst \<Rightarrow> FreshCtx \<Rightarrow> FreshCtx" where
  "store_to_var V si var c =
     (let rewritten = c \<lparr> fresh := (fresh c) \<lparr> vars := map_erase var (vars (fresh c)) \<rparr> \<rparr>;
          derived =
            (case shape (s_value si) of
               LoadOf (P_element_of dvars) \<Rightarrow>
                 (case isVarCheckedFresh V dvars c of
                    (True, c') \<Rightarrow>
                      if map_find dvars (vars (fresh c')) = Some 0 then
                        c' \<lparr> fresh := (fresh c') \<lparr> vars := make_fresh var (vars (fresh c')) \<rparr> \<rparr>
                      else c' \<lparr> fresh := (fresh c')
                                 \<lparr> vars := map_erase var (vars (fresh c')) \<rparr> \<rparr>
                  | (False, c') \<Rightarrow>
                      c' \<lparr> fresh := (fresh c') \<lparr> vars := map_erase var (vars (fresh c')) \<rparr> \<rparr>)
             | _ \<Rightarrow> rewritten)
      in case called (s_value si) of
           None \<Rightarrow> derived
         | Some srcFun \<Rightarrow>
             if fun_name srcFun = ''Rf_protect'' \<or> fun_name srcFun = ''Rf_protectWithIndex''
                \<or> fun_name srcFun = ''Rf_Reprotect'' then c
             else if isPossibleCAllocator srcFun then
               (case store_users_loop (vars (fresh c)) (users (s_value si)) of
                  Handled_by_call \<Rightarrow> c
                | Implicitly_protected \<Rightarrow> rewritten
                | Fresh_store \<Rightarrow>
                    c \<lparr> fresh := (fresh c) \<lparr> vars := make_fresh var (vars (fresh c)) \<rparr> \<rparr>)
             else derived)"

definition handleStore ::
  "FunctionView \<Rightarrow> BalanceStateTy option \<Rightarrow> InstructionView \<Rightarrow> FreshCtx \<Rightarrow> FreshCtx outcome" where
  "handleStore V bal inst c =
     (if QUIET_WHEN_CONFUSED \<and> confused (fresh c) then Returns c
      else case inst of
        I_store si \<Rightarrow>
          (case s_node_stack si of
             Some protectedVar \<Rightarrow>
               (case unfreshAliasedVars V si (map_erase protectedVar (vars (fresh c))) of
                  None \<Rightarrow> NeverReturns
                | Some vs \<Rightarrow> Returns (c \<lparr> fresh := (fresh c) \<lparr> vars := vs \<rparr> \<rparr>))
           | None \<Rightarrow>
               (case s_pointer si of
                  P_ppStackTop \<Rightarrow> restore_stack_top bal si c
                | P_alloca var \<Rightarrow>
                    (case isVarCheckedFresh V var c of
                       (False, c1) \<Rightarrow> Returns c1
                     | (True, c1) \<Rightarrow>
                         Returns
                           (store_to_var V si var
                              (c1 \<lparr> fresh := (fresh c1)
                                     \<lparr> condMsgs := map_erase var (condMsgs (fresh c1)) \<rparr> \<rparr>)))
                | _ \<Rightarrow> Returns c))
      | _ \<Rightarrow> Returns c)"

subsection \<open>handleFreshVarsForNonTerminator\<close>


subsection \<open>The pending conditional messages of a slot\<close>

definition pending :: "FreshCtx \<Rightarrow> AllocaInst \<Rightarrow> LineInfoTy list" where
  "pending c v = (case map_find v (condMsgs (fresh c)) of None \<Rightarrow> [] | Some dmsg \<Rightarrow> dmsg)"

text \<open>
  The slots of \<open>vars\<close> that the liveness at a call gives as possibly used and not possibly
  killed, in the order of \<open>vars\<close>.
\<close>

definition going_to_be_used :: "VarsLiveness \<Rightarrow> FreshCtx \<Rightarrow> AllocaInst list" where
  "going_to_be_used lvars c =
     filter (\<lambda>k. k \<in> possiblyUsed lvars \<and> k \<notin> possiblyKilled lvars) (map fst (vars (fresh c)))"

section \<open>The older fresh-variables transfer of calls (src/unnamed/part\_002)\<close>

text \<open>
  The file part\_002 holds another version of the fresh-variables transfer functions, with
  the signatures of an earlier interface (the engine of part\_000 calls the functions of
  part\_001).  Its \<open>handleCall\<close> is modelled on the same views and the same context; it
  knows neither the \<open>confused\<close> flag nor the cache of checked variables, which it leaves
  as they are.  The liveness it is given is a set of live slots, here \<open>possiblyUsed\<close>.
\<close>

definition REPORT_FRESH_ARGUMENTS :: bool where
  "REPORT_FRESH_ARGUMENTS = True"

definition prune_one_002 :: "VarsLiveness \<Rightarrow> AllocaInst \<Rightarrow> FreshCtx \<Rightarrow> FreshCtx" where
  "prune_one_002 lvars var c =
     (if var \<notin> possiblyUsed lvars then
        c \<lparr> fresh := (fresh c) \<lparr> vars := map_erase var (vars (fresh c)),
                                 condMsgs := map_erase var (condMsgs (fresh c)) \<rparr> \<rparr>
      else c)"

definition pruneFreshVars_002 :: "VarsLiveness option \<Rightarrow> FreshCtx \<Rightarrow> FreshCtx outcome" where
  "pruneFreshVars_002 live c =
     (if vars (fresh c) = [] then Returns c
      else case live of
             None \<Rightarrow> AssertionFails
           | Some lvars \<Rightarrow> Returns (fold (prune_one_002 lvars) (map fst (vars (fresh c))) c))"

definition preserve_block_002 :: "CallInstr \<Rightarrow> FreshCtx \<Rightarrow> FreshCtx outcome" where
  "preserve_block_002 ci c = preserve_block ci c"

definition protect_block_002 :: "FunctionView \<Rightarrow> CallInstr \<Rightarrow> FreshCtx \<Rightarrow> FreshCtx outcome" where
  "protect_block_002 V ci c =
     (case c_args ci of
        [] \<Rightarrow> AssertionFails
      | arg # _ \<Rightarrow>
          (let var = loaded_var arg;
               var = (if var = None then first_store_var (users arg) else var);
               var = (if var = None then first_store_var (c_users ci) else var)
           in if length (pstack (fresh c)) = MAX_PSTACK_SIZE V then
                Returns (c \<lparr> fresh := unprotectAll (fresh c),
                             refinable := refinable c + 1,
                             infos := infos c @ [(M_protect_stack_too_deep, Some (c_id ci))] \<rparr>)
              else
                (case var of
                   Some v \<Rightarrow> Returns (push_protected v c)
                 | None \<Rightarrow>
                     Returns (c \<lparr> fresh := (fresh c)
                                    \<lparr> pstack := pstack (fresh c) @ [None] \<rparr> \<rparr>))))"

text \<open>
  The loop \<open>while (val-- > 0)\<close> of the call to \<open>Rf_unprotect\<close>.  When the top of the protect
  stack is anonymous the body goes on to the next turn at once, before its
  \<open>pop_back\<close>.
\<close>

definition unprotect_body_002 :: "Instruction \<Rightarrow> FreshCtx \<Rightarrow> FreshCtx" where
  "unprotect_body_002 inst c =
     (case last (pstack (fresh c)) of
        None \<Rightarrow> c
      | Some v \<Rightarrow>
          (let c1 =
                 (case map_find v (vars (fresh c)) of
                    None \<Rightarrow> c
                  | Some n \<Rightarrow>
                      (let nProtects = n - 1
                       in if nProtects < 0 then
                            c \<lparr> infos := infos c @ [(M_count_negative v, Some inst)],
                                refinable := refinable c + 1,
                                fresh := (fresh c) \<lparr> vars := map_assign v 0 (vars (fresh c)) \<rparr> \<rparr>
                          else
                            c \<lparr> fresh := (fresh c)
                                  \<lparr> vars := map_assign v nProtects (vars (fresh c)) \<rparr> \<rparr>))
           in c1 \<lparr> fresh := (fresh c1) \<lparr> pstack := butlast (pstack (fresh c1)) \<rparr> \<rparr>))"

fun unprotect_loop_002 :: "Instruction \<Rightarrow> nat \<Rightarrow> FreshCtx \<Rightarrow> FreshCtx" where
  "unprotect_loop_002 inst 0 c = c"
| "unprotect_loop_002 inst (Suc val) c = unprotect_loop_002 inst val (unprotect_body_002 inst c)"

definition unprotect_block_002 :: "CallInstr \<Rightarrow> FreshCtx \<Rightarrow> FreshCtx outcome" where
  "unprotect_block_002 ci c =
     (case c_args ci of
        [] \<Rightarrow> AssertionFails
      | arg # _ \<Rightarrow>
          (case shape arg of
             ConstantInt val \<Rightarrow>
               if val > length (pstack (fresh c)) then
                 Returns (c \<lparr> infos := infos c @
                                [(M_unprotect_more val (length (pstack (fresh c))),
                                  Some (c_id ci))],
                              refinable := refinable c + 1 \<rparr>)
               else Returns (unprotect_loop_002 (c_id ci) val c)
           | _ \<Rightarrow> Returns (c \<lparr> fresh := unprotectAll (fresh c) \<rparr>)))"

fun allocating_args_loop_002 ::
  "Instruction \<Rightarrow> CalledFunctionTy \<Rightarrow> Value list \<Rightarrow> FreshCtx \<Rightarrow> FreshCtx" where
  "allocating_args_loop_002 inst tgt [] c = c"
| "allocating_args_loop_002 inst tgt (arg # args) c =
     allocating_args_loop_002 inst tgt args
       (case called arg of
          None \<Rightarrow> c
        | Some src \<Rightarrow>
            if \<not> isPossibleCAllocator src then c
            else c \<lparr> infos := infos c @
                         [(M_allocating_argument (fun_name tgt) (fun_name src), Some inst)],
                     refinable := refinable c + 1 \<rparr>)"

text \<open>
  The loop over \<open>vars\<close> at an allocating call.  At a protected slot it leaves the function
  (\<open>return\<close>); the message for an unprotected slot is always a conditional one.
\<close>

fun report_loop_002 ::
  "CallInstr \<Rightarrow> CalledFunctionTy \<Rightarrow> AllocaInst set \<Rightarrow> (AllocaInst \<times> int) list \<Rightarrow> FreshCtx \<Rightarrow>
   FreshCtx" where
  "report_loop_002 ci tgt passedVars [] c = c"
| "report_loop_002 ci tgt passedVars (e # es) c =
     (if snd e > 0 then c
      else if fst e \<in> passedVars then report_loop_002 ci tgt passedVars es c
      else report_loop_002 ci tgt passedVars es
             (issueConditionalMessage (c_id ci) None (fst e)
                (M_unprotected_variable (fst e) (fun_name tgt)) c))"

definition handleCall_002 ::
  "FunctionView \<Rightarrow> InstructionView \<Rightarrow> FreshCtx \<Rightarrow> FreshCtx outcome" where
  "handleCall_002 V inst c =
     (case inst of
        I_call ci \<Rightarrow>
          (case c_target ci of
             None \<Rightarrow> Returns c
           | Some tgt \<Rightarrow>
               if fun_name tgt = ''R_PreserveObject'' then preserve_block_002 ci c
               else if fun_name tgt = ''Rf_protect'' \<or> fun_name tgt = ''R_ProtectWithIndex''
               then protect_block_002 V ci c
               else if fun_name tgt = ''Rf_unprotect'' then unprotect_block_002 ci c
               else if \<not> isCAllocating tgt then Returns c
               else
                 (let c1 = (if REPORT_FRESH_ARGUMENTS \<and> \<not> protectsArguments tgt
                            then allocating_args_loop_002 (c_id ci) tgt (c_args ci) c else c)
                  in obind (pruneFreshVars_002 (c_live ci) c1)
                       (\<lambda>c2. Returns
                          (if length (vars (fresh c2)) > 0 then
                             report_loop_002 ci tgt
                               (passed_vars (paramIsSEXP tgt) (c_args ci) 0) (vars (fresh c2)) c2
                           else c2))))
      | _ \<Rightarrow> Returns c)"

section \<open>Concrete states and functions on which the model is run\<close>

definition example_state :: BcheckStateTy where
  "example_state =
     \<lparr> bb = 4,
       balance = \<lparr> depth = 2, savedDepth = -1, count = 2, countState = CS_EXACT,
                   counterVar = Some 7, topSaveVar = None, balance_confused = False \<rparr>,
       intGuards = [(5, IGS_NONZERO)],
       sexpGuards = [(6, \<lparr> state = SGS_SYMBOL, symbolName = ''dim'' \<rparr>)],
       freshVars = \<lparr> vars = [(1, 1), (2, 0)],
                     condMsgs = [(2, [(M_unprotected_variable 2 ''Rf_allocVector'', Some 30)])],
                     pstack = [Some 1, None], confused = False \<rparr>,
       hashcode = 0 \<rparr>"













section \<open>Concrete instructions and contexts for the fresh-variables transfer\<close>

text \<open>
  A function whose slots are all \<open>SEXP\<close> slots with load and store users only, with a
  protect stack of at most two entries.
\<close>

definition example_view :: FunctionView where
  "example_view =
     \<lparr> MAX_PSTACK_SIZE = 2, isSEXP = (\<lambda>v. True), var_users = (\<lambda>v. [VU_load, VU_store]),
       name_is_empty = (\<lambda>v. False), only_store_loads = (\<lambda>v. None) \<rparr>"

definition runtime_function :: "string \<Rightarrow> bool \<Rightarrow> CalledFunctionTy" where
  "runtime_function name allocates =
     \<lparr> fun_name = name, isCAllocating = allocates, isPossibleCAllocator = allocates,
       protectsArguments = False, isCalleeSafe = False, calleeSafeArgs = {},
       isCalleeProtect = False, calleeProtectArgs = {}, fun_arg_size = 2,
       paramIsSEXP = [True, True] \<rparr>"

definition constant_value :: "nat \<Rightarrow> Value" where
  "constant_value n = \<lparr> shape = ConstantInt n, users = [U_other], called = None \<rparr>"

definition loaded_value :: "AllocaInst \<Rightarrow> Value" where
  "loaded_value v = \<lparr> shape = LoadOf (P_alloca v), users = [U_other], called = None \<rparr>"

definition allocated_value :: Value where
  "allocated_value =
     \<lparr> shape = OtherShape, users = [U_other],
       called = Some (runtime_function ''Rf_allocVector'' True) \<rparr>"

definition example_liveness :: VarsLiveness where
  "example_liveness = \<lparr> possiblyUsed = {1, 2}, possiblyKilled = {1}, definitelyUsed = {} \<rparr>"

text \<open>\<open>UNPROTECT(k)\<close>, \<open>PROTECT(v)\<close> and \<open>cons(allocVector(..), allocVector(..))\<close>.\<close>

definition unprotect_call :: "nat \<Rightarrow> CallInstr" where
  "unprotect_call k =
     \<lparr> c_id = 20, c_target = Some (runtime_function ''Rf_unprotect'' False),
       c_args = [constant_value k], c_users = [], c_live = Some example_liveness \<rparr>"

definition protect_call :: "AllocaInst \<Rightarrow> CallInstr" where
  "protect_call v =
     \<lparr> c_id = 21, c_target = Some (runtime_function ''Rf_protect'' False),
       c_args = [loaded_value v], c_users = [], c_live = Some example_liveness \<rparr>"

definition cons_call :: CallInstr where
  "cons_call =
     \<lparr> c_id = 22, c_target = Some (runtime_function ''Rf_cons'' True),
       c_args = [allocated_value, allocated_value], c_users = [U_other],
       c_live = Some example_liveness \<rparr>"

text \<open>A load of the slot and a store of a constant to it.\<close>

definition load_of :: "AllocaInst \<Rightarrow> LoadInstr" where
  "load_of v =
     \<lparr> l_id = 23, l_pointer = P_alloca v, l_users = [U_other],
       l_live = Some example_liveness \<rparr>"

definition store_to :: "AllocaInst \<Rightarrow> StoreInstr" where
  "store_to v =
     \<lparr> s_id = 24, s_node_stack = None, s_alias = None, s_pointer = P_alloca v,
       s_value = constant_value 0 \<rparr>"

text \<open>
  A context with the fresh variables of \<open>example_state\<close>: slot 1 protected once, slot 2
  fresh with one pending line, and a protect stack holding slot 1 under an anonymous
  entry; the same with slot 2 on top of the stack; and the first as \<open>UNPROTECT(3)\<close>
  leaves it: with the finding, and on a confused trace.
\<close>

definition example_ctx :: FreshCtx where
  "example_ctx =
     \<lparr> fresh = freshVars example_state, infos = [], refinable = 0,
       checkedVarsCache = Map.empty \<rparr>"

definition example_ctx2 :: FreshCtx where
  "example_ctx2 =
     example_ctx \<lparr> fresh := (fresh example_ctx) \<lparr> pstack := [Some 1, Some 2] \<rparr> \<rparr>"

definition confused_ctx :: FreshCtx where
  "confused_ctx =
     example_ctx \<lparr> infos := [(M_unprotect_more 3 2, Some 20)], refinable := 1,
                   fresh := (fresh example_ctx) \<lparr> confused := True \<rparr> \<rparr>"

definition pending_line :: LineInfoTy where
  "pending_line = (M_unprotected_variable 2 ''Rf_allocVector'', Some 30)"

text \<open>
  The context with slot 1 alone on the protect stack; a liveness at which slot 2 is dead;
  and \<open>UNPROTECT(nprotect)\<close>, where \<open>nprotect\<close> is slot 7, the counter variable of the
  balance state of \<open>example_state\<close>.
\<close>

definition example_ctx1 :: FreshCtx where
  "example_ctx1 = example_ctx \<lparr> fresh := (fresh example_ctx) \<lparr> pstack := [Some 1] \<rparr> \<rparr>"

definition dead_liveness :: VarsLiveness where
  "dead_liveness = \<lparr> possiblyUsed = {1}, possiblyKilled = {1}, definitelyUsed = {} \<rparr>"

definition unprotect_counter_call :: CallInstr where
  "unprotect_counter_call =
     \<lparr> c_id = 25, c_target = Some (runtime_function ''Rf_unprotect'' False),
       c_args = [loaded_value 7], c_users = [], c_live = Some example_liveness \<rparr>"

text \<open>
  The store of slot 5, a local copy of slot 2, to the node stack; and the context that it
  leaves from \<open>example_ctx\<close>: slot 2 is no longer in \<open>vars\<close>, its pending line is kept.
\<close>

definition alias_store :: StoreInstr where
  "alias_store =
     \<lparr> s_id = 26, s_node_stack = Some 5, s_alias = Some 2, s_pointer = P_other,
       s_value = loaded_value 5 \<rparr>"

definition example_ctx3 :: FreshCtx where
  "example_ctx3 = example_ctx \<lparr> fresh := (fresh example_ctx) \<lparr> vars := [(1, 1)] \<rparr> \<rparr>"

section \<open>Properties of the multi-allocating-argument scanner\<close>

lemma classify_value:
  "kind_value (classifyArgumentExpression isA pa v) = direct_kind isA pa v"
  by (cases "(isA, pa, v)" rule: direct_kind.cases)
     (auto simp: classifyArgumentExpression_def split: option.splits)

lemma phi_loop_fold:
  "kind_value (phi_loop isA pa vs k) =
     fold max (map (direct_kind isA pa) vs) (kind_value k)"
  by (induction vs arbitrary: k) (auto simp: Let_def classify_value max_def)

lemma operand_kind_one_level: "kind_value (operand_kind isA pa v) = one_level_kind isA pa v"
proof (cases v)
  case (PHINode vs)
  have "Max (set (0 # map (direct_kind isA pa) vs)) =
        fold max (map (direct_kind isA pa) vs) 0"
    by (rule Max.set_eq_fold)
  then show ?thesis
    using PHINode by (simp add: operand_kind_def phi_loop_fold)
qed (simp_all add: operand_kind_def classify_value)

lemma kind_value_fresh: "(kind_value AK_FRESH \<le> kind_value k) = (kind_value k = 2)"
  by (cases k) simp_all

lemma kind_value_allocating: "(kind_value AK_ALLOCATING \<le> n) = (1 \<le> n)"
  by simp

lemma operands_loop_counts:
  "operands_loop isA pa vs (nf, na) =
     (nf + length (filter (\<lambda>v. one_level_kind isA pa v = 2) vs),
      na + length (filter (\<lambda>v. 1 \<le> one_level_kind isA pa v) vs))"
proof (induction vs arbitrary: nf na)
  case Nil
  show ?case by simp
next
  case (Cons v vs)
  show ?case
    by (simp add: Let_def Cons.IH kind_value_fresh kind_value_allocating
             operand_kind_one_level del: kind_value.simps)
qed

lemma direct_le_spec: "direct_kind isA pa v \<le> spec_kind isA pa v"
  by (cases "(isA, pa, v)" rule: direct_kind.cases) simp_all

lemma direct_eq_spec: "\<not> is_phi v \<Longrightarrow> direct_kind isA pa v = spec_kind isA pa v"
  by (cases "(isA, pa, v)" rule: spec_kind.cases) simp_all

lemma spec_kind_le_2: "spec_kind isA pa v \<le> 2"
proof (induction v)
  case (PHINode vs)
  then show ?case by (auto simp: Max_le_iff)
next
  case (CallInst f)
  then show ?case by (cases f) simp_all
qed simp

lemma Max_map_mono:
  assumes "\<And>x. x \<in> set xs \<Longrightarrow> f x \<le> (g x :: nat)"
  shows "Max (set (0 # map f xs)) \<le> Max (set (0 # map g xs))"
proof -
  have "\<And>y. y \<in> set (0 # map f xs) \<Longrightarrow> y \<le> Max (set (0 # map g xs))"
  proof -
    fix y assume "y \<in> set (0 # map f xs)"
    then consider "y = 0" | x where "x \<in> set xs" "y = f x" by auto
    then show "y \<le> Max (set (0 # map g xs))"
    proof cases
      case 1 then show ?thesis by simp
    next
      case 2
      have "g x \<le> Max (set (0 # map g xs))" using 2(1) by (intro Max_ge) auto
      with assms [OF 2(1)] 2(2) show ?thesis by simp
    qed
  qed
  then show ?thesis by (intro Max.boundedI) auto
qed

lemma one_level_le_spec: "one_level_kind isA pa v \<le> spec_kind isA pa v"
proof (cases v)
  case (PHINode vs)
  then show ?thesis using Max_map_mono [of vs "direct_kind isA pa" "spec_kind isA pa"]
    by (simp add: direct_le_spec)
qed (simp_all add: direct_le_spec)

lemma one_level_eq_spec:
  assumes "\<not> phi_of_phi v"
  shows "one_level_kind isA pa v = spec_kind isA pa v"
proof (cases v)
  case (PHINode vs)
  with assms have "\<And>w. w \<in> set vs \<Longrightarrow> \<not> is_phi w" by (auto simp: list_ex_iff)
  then have "map (direct_kind isA pa) vs = map (spec_kind isA pa) vs"
    by (simp add: direct_eq_spec)
  with PHINode show ?thesis by simp
next
  case (CallInst f)
  then show ?thesis by (simp add: direct_eq_spec)
next
  case OtherValue
  then show ?thesis by simp
qed

lemma filter_length_mono:
  assumes "\<And>x. x \<in> set xs \<Longrightarrow> P x \<Longrightarrow> Q x"
  shows "length (filter P xs) \<le> length (filter Q xs)"
  using assms by (induction xs) auto

text \<open>
  Claim C8, as amended.  The scanner warns about a call exactly when at least two operands
  are ALLOCATING or stronger and at least one is FRESH, in the classification where a
  direct call to an allocating function is ALLOCATING, FRESH when the callee is a possible
  allocator, a phi node takes the maximum over its incoming values of what each is as a
  direct call (an incoming value that is itself a phi node counting as NOALLOC), and
  anything else is NOALLOC.  Every call the scanner warns about is one that the
  classification with the maximum taken through nested phi nodes reports, and on calls
  none of whose phi operands has a phi node among its incoming values the two agree.
\<close>

theorem maacheck_reports_iff:
  "suspicious_call isA pa operands = one_level_reports isA pa operands \<and>
   (suspicious_call isA pa operands \<longrightarrow> spec_reports isA pa operands) \<and>
   (\<not> list_ex phi_of_phi operands \<longrightarrow>
      suspicious_call isA pa operands = spec_reports isA pa operands)"
proof -
  have 1: "suspicious_call isA pa operands = one_level_reports isA pa operands"
    by (simp add: suspicious_call_def one_level_reports_def operands_loop_counts)
  have a: "length (filter (\<lambda>v. 1 \<le> one_level_kind isA pa v) operands)
           \<le> length (filter (\<lambda>v. 1 \<le> spec_kind isA pa v) operands)"
    by (rule filter_length_mono) (use one_level_le_spec [of isA pa] in \<open>auto intro: order_trans\<close>)
  have "\<And>v. one_level_kind isA pa v = 2 \<Longrightarrow> spec_kind isA pa v = 2"
    using one_level_le_spec [of isA pa] spec_kind_le_2 [of isA pa] by (metis le_antisym)
  then have b: "length (filter (\<lambda>v. one_level_kind isA pa v = 2) operands)
           \<le> length (filter (\<lambda>v. spec_kind isA pa v = 2) operands)"
    by (intro filter_length_mono)
  from a b have 2: "one_level_reports isA pa operands \<longrightarrow> spec_reports isA pa operands"
    by (auto simp: one_level_reports_def spec_reports_def)
  have 3: "\<not> list_ex phi_of_phi operands \<longrightarrow>
      one_level_reports isA pa operands = spec_reports isA pa operands"
  proof
    assume "\<not> list_ex phi_of_phi operands"
    then have "\<And>v. v \<in> set operands \<Longrightarrow> one_level_kind isA pa v = spec_kind isA pa v"
      by (auto simp: list_ex_iff one_level_eq_spec)
    then have "filter (\<lambda>v. 1 \<le> one_level_kind isA pa v) operands
                 = filter (\<lambda>v. 1 \<le> spec_kind isA pa v) operands"
      "filter (\<lambda>v. one_level_kind isA pa v = 2) operands
                 = filter (\<lambda>v. spec_kind isA pa v = 2) operands"
      by (auto intro: filter_cong)
    then show "one_level_reports isA pa operands = spec_reports isA pa operands"
      by (simp add: one_level_reports_def spec_reports_def)
  qed
  from 1 2 3 show ?thesis by simp
qed

theorem maacheck_reports_iff_witness:
  "\<not> list_ex phi_of_phi flat_call \<and>
   one_level_reports (\<lambda>f. f \<noteq> 9) {1} flat_call \<and>
   suspicious_call (\<lambda>f. f \<noteq> 9) {1} flat_call \<and>
   spec_reports (\<lambda>f. f \<noteq> 9) {1} flat_call \<and>
   \<not> suspicious_call (\<lambda>f. f \<noteq> 9) {1} nested_call"
proof -
  have a: "\<not> list_ex phi_of_phi flat_call" by (simp add: flat_call_def)
  have b: "one_level_reports (\<lambda>f. f \<noteq> 9) {1} flat_call"
    by (simp add: flat_call_def one_level_reports_def)
  have c: "\<not> one_level_reports (\<lambda>f. f \<noteq> 9) {1} nested_call"
    by (simp add: nested_call_def one_level_reports_def)
  from maacheck_reports_iff [of "\<lambda>f. f \<noteq> 9" "{1}" flat_call]
       maacheck_reports_iff [of "\<lambda>f. f \<noteq> 9" "{1}" nested_call] a b c
  show ?thesis by blast
qed

text \<open>
  Claim C8 as stated fails.  In the second call the phi operand has a phi node among its
  incoming values, over a direct call to a possible allocator.  With the maximum taken
  over the classifications of the incoming values the operand is FRESH and the call has
  two allocating operands, one of them fresh; the scanner classifies the inner phi node
  as NOALLOC, counts one allocating operand and no fresh one, and does not warn.
\<close>

theorem maacheck_nested_phi_counterexample:
  "spec_kind (\<lambda>f. f \<noteq> 9) {1} (PHINode [PHINode [CallInst (Some 1), OtherValue], OtherValue]) = 2 \<and>
   operand_kind (\<lambda>f. f \<noteq> 9) {1} (PHINode [PHINode [CallInst (Some 1), OtherValue], OtherValue])
     = AK_NOALLOC \<and>
   spec_reports (\<lambda>f. f \<noteq> 9) {1} nested_call \<and>
   operands_loop (\<lambda>f. f \<noteq> 9) {1} nested_call (0, 0) = (0, 1) \<and>
   \<not> suspicious_call (\<lambda>f. f \<noteq> 9) {1} nested_call"
  by (simp add: nested_call_def spec_reports_def suspicious_call_def operand_kind_def
      classifyArgumentExpression_def Let_def)

section \<open>Properties of the refinement controller\<close>

lemma loop_stop:
  "\<not> (restartable aI aS ig sg \<and> 0 < snd (run ig sg)) \<Longrightarrow>
   checkFunction_loop aI aS run ig sg buf done =
     \<lparr> msg_buffer = buf @ fst (run ig sg), runs = done @ [(ig, sg)],
       final_int = ig, final_sexp = sg \<rparr>"
  by (subst checkFunction_loop.simps) (auto simp: restartable_def split: prod.splits)

lemma loop_int:
  "\<not> ig \<Longrightarrow> \<not> aI \<Longrightarrow> 0 < snd (run ig sg) \<Longrightarrow>
   checkFunction_loop aI aS run ig sg buf done =
   checkFunction_loop aI aS run True sg [] (done @ [(ig, sg)])"
  by (subst checkFunction_loop.simps) (auto simp: restartable_def split: prod.splits)

lemma loop_sexp:
  "ig \<or> aI \<Longrightarrow> \<not> sg \<Longrightarrow> \<not> aS \<Longrightarrow> 0 < snd (run ig sg) \<Longrightarrow>
   checkFunction_loop aI aS run ig sg buf done =
   checkFunction_loop aI aS run ig True [] (done @ [(ig, sg)])"
  by (subst checkFunction_loop.simps) (auto simp: restartable_def split: prod.splits)

text \<open>
  Claim C1.  The controller runs the function at the precisions of the escalation order
  (baseline, then integer guards, then SEXP guards, leaving out the avoided ones), one
  after the other: every run but the last tallied a refinable finding while some
  precision was still disabled and not avoided, and its diagnostics were discarded, so
  that the messages kept are those of the last run alone; and the last run is one with no
  refinable finding, or one at which every precision is enabled or avoided.
\<close>

theorem refinement_escalation:
  "runs (checkFunction aI aS run) = spec_schedule run (spec_precisions aI aS) \<and>
   last (runs (checkFunction aI aS run)) =
     (final_int (checkFunction aI aS run), final_sexp (checkFunction aI aS run)) \<and>
   msg_buffer (checkFunction aI aS run) =
     fst (run (final_int (checkFunction aI aS run)) (final_sexp (checkFunction aI aS run))) \<and>
   (\<forall>c \<in> set (butlast (runs (checkFunction aI aS run))).
      0 < snd (run (fst c) (snd c)) \<and> restartable aI aS (fst c) (snd c)) \<and>
   (snd (run (final_int (checkFunction aI aS run)) (final_sexp (checkFunction aI aS run))) = 0
    \<or> \<not> restartable aI aS (final_int (checkFunction aI aS run))
          (final_sexp (checkFunction aI aS run)))"
proof (cases "snd (run False False) = 0")
  case True
  then have "checkFunction aI aS run =
      \<lparr> msg_buffer = fst (run False False), runs = [(False, False)],
        final_int = False, final_sexp = False \<rparr>"
    by (simp add: checkFunction_def loop_stop)
  then show ?thesis using True
    by (simp add: spec_precisions_def)
next
  case ff: False
  show ?thesis
  proof (cases aI)
    case aI: True
    show ?thesis
    proof (cases aS)
      case True
      then have "checkFunction aI aS run =
        \<lparr> msg_buffer = fst (run False False), runs = [(False, False)],
          final_int = False, final_sexp = False \<rparr>"
        using aI by (simp add: checkFunction_def loop_stop restartable_def)
      then show ?thesis using True aI ff
        by (simp add: spec_precisions_def restartable_def)
    next
      case False
      then have "checkFunction aI aS run =
        \<lparr> msg_buffer = fst (run False True), runs = [(False, False), (False, True)],
          final_int = False, final_sexp = True \<rparr>"
        using aI ff by (simp add: checkFunction_def loop_sexp loop_stop restartable_def)
      then show ?thesis using False aI ff
        by (simp add: spec_precisions_def restartable_def)
    qed
  next
    case aI: False
    have step1: "checkFunction aI aS run =
        checkFunction_loop aI aS run True False [] [(False, False)]"
      using aI ff by (simp add: checkFunction_def loop_int)
    show ?thesis
    proof (cases "snd (run True False) = 0 \<or> aS")
      case True
      then have "checkFunction aI aS run =
        \<lparr> msg_buffer = fst (run True False), runs = [(False, False), (True, False)],
          final_int = True, final_sexp = False \<rparr>"
        unfolding step1 by (auto simp add: loop_stop restartable_def)
      then show ?thesis using True aI ff
        by (auto simp add: spec_precisions_def restartable_def)
    next
      case False
      then have "checkFunction aI aS run =
        \<lparr> msg_buffer = fst (run True True),
          runs = [(False, False), (True, False), (True, True)],
          final_int = True, final_sexp = True \<rparr>"
        unfolding step1 by (simp add: loop_sexp loop_stop restartable_def)
      then show ?thesis using False aI ff
        by (simp add: spec_precisions_def restartable_def)
    qed
  qed
qed

theorem refinement_escalation_witness:
  "runs (checkFunction False False
      (\<lambda>ig sg. if sg then ([''ok''], 0::nat) else ([''imbalance''], 1)))
     = [(False, False), (True, False), (True, True)] \<and>
   msg_buffer (checkFunction False False
      (\<lambda>ig sg. if sg then ([''ok''], 0::nat) else ([''imbalance''], 1)))
     = [''ok'']"
proof -
  let ?run = "\<lambda>(ig::bool) sg. if sg then ([''ok''], 0::nat) else ([''imbalance''], 1)"
  let ?r = "checkFunction False False ?run"
  note c = refinement_escalation [of False False ?run]
  from c have r: "runs ?r = [(False, False), (True, False), (True, True)]"
    by (simp add: spec_precisions_def)
  from c have "last (runs ?r) = (final_int ?r, final_sexp ?r)" by blast
  with r have f: "final_sexp ?r = True" by simp
  from c have "msg_buffer ?r = fst (?run (final_int ?r) (final_sexp ?r))" by blast
  with f have "msg_buffer ?r = [''ok'']" by simp
  with r show ?thesis by simp
qed

section \<open>Properties of the hash, the equality and the visited set\<close>

lemma hash_keeps_fields [simp]:
  "bb (hash hc x) = bb x" "balance (hash hc x) = balance x"
  "intGuards (hash hc x) = intGuards x" "sexpGuards (hash hc x) = sexpGuards x"
  "freshVars (hash hc x) = freshVars x"
  by (simp_all add: hash_def Let_def)

lemma equal_hash_cong [simp]:
  "BcheckStateTy_equal (hash hc x) y = BcheckStateTy_equal x y"
  "BcheckStateTy_equal x (hash hc y) = BcheckStateTy_equal x y"
  by (simp_all add: BcheckStateTy_equal_def)



lemma initState_bb [simp]: "bb (initState e) = e"
  by (simp add: initState_def)




section \<open>Properties of the work-list engine\<close>

lemma clone_hash [simp]: "clone (hash hc x) b = clone x b"
  by (simp add: clone_def hash_def Let_def)

lemma clone_clone [simp]: "clone (clone x a) b = clone x b"
  by (simp add: clone_def)

lemma clone_fields [simp]:
  "bb (clone x b) = b" "balance (clone x b) = balance x" "intGuards (clone x b) = intGuards x"
  "sexpGuards (clone x b) = sexpGuards x" "freshVars (clone x b) = freshVars x"
  by (simp_all add: clone_def)
















section \<open>Lemmas about the fresh-variables transfer functions\<close>


lemma map_find_erase:
  "map_find k (map_erase k' m) = (if k = k' then None else map_find k m)"
  by (induction m) (auto simp: map_find_def map_erase_def)

lemma map_find_insert:
  "map_find k' m = None \<Longrightarrow>
   map_find k (map_insert k' v m) = (if k = k' then Some v else map_find k m)"
  by (induction m) (auto simp: map_find_def split: if_splits)


lemma map_assign_keys [simp]: "map fst (map_assign k v m) = map fst m"
  by (induction m) (auto simp: map_assign_def)

lemma unprotectOne_frame [simp]:
  "infos (unprotectOne c) = infos c"
  "condMsgs (fresh (unprotectOne c)) = condMsgs (fresh c)"
  "confused (fresh (unprotectOne c)) = confused (fresh c)"
  "pstack (fresh (unprotectOne c)) = butlast (pstack (fresh c))"
  "checkedVarsCache (unprotectOne c) = checkedVarsCache c"
  by (simp_all add: unprotectOne_def Let_def split: option.splits)


lemma unprotectOne_keys [simp]:
  "map fst (vars (fresh (unprotectOne c))) = map fst (vars (fresh c))"
  by (simp add: unprotectOne_def Let_def split: option.splits)


lemma butlast_funpow: "(butlast ^^ k) xs = take (length xs - k) xs"
proof (induction k arbitrary: xs)
  case 0
  show ?case by simp
next
  case (Suc k)
  have "(butlast ^^ Suc k) xs = (butlast ^^ k) (butlast xs)" by (simp add: funpow_swap1)
  also have "\<dots> = take (length (butlast xs) - k) (butlast xs)" by (rule Suc.IH)
  also have "\<dots> = take (length xs - Suc k) xs"
    by (simp add: butlast_conv_take min_def)
  finally show ?case .
qed



lemma allocating_args_loop_emits:
  "\<exists>extra. allocating_args_loop inst tgt args i c =
            c \<lparr> infos := infos c @ extra, refinable := refinable c + length extra \<rparr> \<and>
          (\<forall>l \<in> set extra. \<exists>g. l = (M_allocating_argument (fun_name tgt) g, Some inst))"
proof (induction args arbitrary: i c)
  case Nil
  show ?case by (rule exI [of _ "[]"]) simp
next
  case (Cons arg args)
  let ?line = "\<lambda>src. (M_allocating_argument (fun_name tgt) (fun_name src), Some inst)"
  let ?c1 = "(case called arg of
          None \<Rightarrow> c
        | Some src \<Rightarrow>
            if \<not> isPossibleCAllocator src then c
            else if i < fun_arg_size tgt \<and> i \<in> calleeSafeArgs tgt then c
            else c \<lparr> infos := infos c @ [?line src], refinable := refinable c + 1 \<rparr>)"
  have "\<exists>e1. ?c1 = c \<lparr> infos := infos c @ e1, refinable := refinable c + length e1 \<rparr> \<and>
          (\<forall>l \<in> set e1. \<exists>g. l = (M_allocating_argument (fun_name tgt) g, Some inst))"
  proof (cases "called arg")
    case None
    then show ?thesis by (intro exI [of _ "[]"]) simp
  next
    case (Some src)
    show ?thesis
    proof (cases "\<not> isPossibleCAllocator src \<or> (i < fun_arg_size tgt \<and> i \<in> calleeSafeArgs tgt)")
      case True
      with Some show ?thesis by (intro exI [of _ "[]"]) auto
    next
      case False
      with Some show ?thesis by (intro exI [of _ "[?line src]"]) auto
    qed
  qed
  then obtain e1 where e1: "?c1 = c \<lparr> infos := infos c @ e1, refinable := refinable c + length e1 \<rparr>"
    and l1: "\<forall>l \<in> set e1. \<exists>g. l = (M_allocating_argument (fun_name tgt) g, Some inst)" by blast
  from Cons.IH [of "i + 1" ?c1] obtain e2 where
    e2: "allocating_args_loop inst tgt args (i + 1) ?c1 =
           ?c1 \<lparr> infos := infos ?c1 @ e2, refinable := refinable ?c1 + length e2 \<rparr>"
    and l2: "\<forall>l \<in> set e2. \<exists>g. l = (M_allocating_argument (fun_name tgt) g, Some inst)" by blast
  have "allocating_args_loop inst tgt (arg # args) i c =
          c \<lparr> infos := infos c @ (e1 @ e2), refinable := refinable c + length (e1 @ e2) \<rparr>"
    unfolding allocating_args_loop.simps e2 by (subst (1 2 3) e1) simp
  with l1 l2 show ?case by (intro exI [of _ "e1 @ e2"]) auto
qed

lemma handleCall_confused:
  assumes "confused (fresh c)"
  shows "\<exists>extra. handleCall V bal inst c =
            Returns (c \<lparr> infos := infos c @ extra, refinable := refinable c + length extra \<rparr>) \<and>
          (\<forall>l \<in> set extra. \<exists>f g i. l = (M_allocating_argument f g, Some i))"
proof -
  have triv: "\<exists>extra. Returns c =
            Returns (c \<lparr> infos := infos c @ extra, refinable := refinable c + length extra \<rparr>) \<and>
          (\<forall>l \<in> set extra. \<exists>f g i. l = (M_allocating_argument f g, Some i))"
    by (rule exI [of _ "[]"]) simp
  show ?thesis
  proof (cases inst)
    case (I_call ci)
    show ?thesis
    proof (cases "c_target ci")
      case None
      with I_call triv show ?thesis by (simp add: handleCall_def)
    next
      case (Some tgt)
      show ?thesis
      proof (cases "isCAllocating tgt \<and> \<not> protectsArguments tgt \<and> \<not> isCalleeSafe tgt")
        case False
        with I_call Some assms triv show ?thesis
          by (auto simp add: handleCall_def QUIET_WHEN_CONFUSED_def allocating_args_check_def)
      next
        case True
        from allocating_args_loop_emits [of "c_id ci" tgt "c_args ci" 0 c]
        obtain extra where
          "allocating_args_loop (c_id ci) tgt (c_args ci) 0 c =
             c \<lparr> infos := infos c @ extra, refinable := refinable c + length extra \<rparr>"
          "\<forall>l \<in> set extra. \<exists>g. l = (M_allocating_argument (fun_name tgt) g, Some (c_id ci))"
          by blast
        with I_call Some assms True show ?thesis
          by (intro exI [of _ extra])
             (auto simp add: handleCall_def QUIET_WHEN_CONFUSED_def allocating_args_check_def)
      qed
    qed
  qed (use triv in \<open>simp_all add: handleCall_def\<close>)
qed

lemma handleLoad_confused: "confused (fresh c) \<Longrightarrow> handleLoad V inst c = Returns c"
  by (simp add: handleLoad_def QUIET_WHEN_CONFUSED_def)

lemma handleStore_confused: "confused (fresh c) \<Longrightarrow> handleStore V bal inst c = Returns c"
  by (simp add: handleStore_def QUIET_WHEN_CONFUSED_def)

lemma issueConditionalMessage_frame [simp]:
  "pstack (fresh (issueConditionalMessage i live v m c)) = pstack (fresh c)"
  "vars (fresh (issueConditionalMessage i live v m c)) = vars (fresh c)"
  "confused (fresh (issueConditionalMessage i live v m c)) = confused (fresh c)"
  "checkedVarsCache (issueConditionalMessage i live v m c) = checkedVarsCache c"
  by (simp_all add: issueConditionalMessage_def split: option.splits)

lemma isVarCheckedFresh_frame [simp]:
  "fresh (snd (isVarCheckedFresh V v c)) = fresh c"
  by (simp add: isVarCheckedFresh_def Let_def split: option.splits)

lemma isVarCheckedFresh_frame2:
  "isVarCheckedFresh V v c = (b, c') \<Longrightarrow> fresh c' = fresh c"
  by (auto simp add: isVarCheckedFresh_def Let_def split: option.splits if_splits)

lemma prune_one_frame [simp]:
  "pstack (fresh (prune_one lv v c)) = pstack (fresh c)"
  "confused (fresh (prune_one lv v c)) = confused (fresh c)"
  by (simp_all add: prune_one_def split: option.splits)

lemma fold_prune_frame [simp]:
  "pstack (fresh (fold (prune_one lv) ks c)) = pstack (fresh c)"
  "confused (fresh (fold (prune_one lv) ks c)) = confused (fresh c)"
  by (induction ks arbitrary: c) simp_all


lemma report_var_frame [simp]:
  "pstack (fresh (report_var ci tgt pv e c)) = pstack (fresh c)"
  "vars (fresh (report_var ci tgt pv e c)) = vars (fresh c)"
  "confused (fresh (report_var ci tgt pv e c)) = confused (fresh c)"
  by (simp_all add: report_var_def)

lemma fold_report_frame [simp]:
  "pstack (fresh (fold (report_var ci tgt pv) es c)) = pstack (fresh c)"
  "vars (fresh (fold (report_var ci tgt pv) es c)) = vars (fresh c)"
  "confused (fresh (fold (report_var ci tgt pv) es c)) = confused (fresh c)"
  by (induction es arbitrary: c) simp_all

lemma report_fresh_vars_frame [simp]:
  "pstack (fresh (report_fresh_vars ci tgt c)) = pstack (fresh c)"
  "vars (fresh (report_fresh_vars ci tgt c)) = vars (fresh c)"
  "confused (fresh (report_fresh_vars ci tgt c)) = confused (fresh c)"
  by (simp_all add: report_fresh_vars_def)

lemma allocating_args_loop_frame [simp]:
  "fresh (allocating_args_loop inst tgt args i c) = fresh c"
  by (induction args arbitrary: i c) (simp_all split: option.splits)

lemma allocating_args_check_frame [simp]:
  "fresh (allocating_args_check ci tgt c) = fresh c"
  by (simp add: allocating_args_check_def)









lemma store_to_var_frame [simp]:
  "pstack (fresh (store_to_var V si var c)) = pstack (fresh c)"
  "condMsgs (fresh (store_to_var V si var c)) = condMsgs (fresh c)"
  "confused (fresh (store_to_var V si var c)) = confused (fresh c)"
  by (auto simp: store_to_var_def Let_def isVarCheckedFresh_frame2
      split: option.splits Shape.splits Pointer.splits prod.splits bool.splits
        store_users_result.splits)






lemma prune_one_002_frame [simp]:
  "pstack (fresh (prune_one_002 lv v c)) = pstack (fresh c)"
  by (simp add: prune_one_002_def)

lemma fold_prune_002_frame [simp]:
  "pstack (fresh (fold (prune_one_002 lv) ks c)) = pstack (fresh c)"
  by (induction ks arbitrary: c) simp_all


lemma allocating_args_loop_002_frame [simp]:
  "fresh (allocating_args_loop_002 inst tgt args c) = fresh c"
  by (induction args arbitrary: c) (simp_all split: option.splits)

lemma report_loop_002_frame [simp]:
  "pstack (fresh (report_loop_002 ci tgt pv es c)) = pstack (fresh c)"
  by (induction es arbitrary: c) simp_all


lemma prune_one_other:
  "k' \<noteq> k \<Longrightarrow> map_find k' (condMsgs (fresh (prune_one lv k c))) = map_find k' (condMsgs (fresh c))"
  by (simp add: prune_one_def map_find_erase split: option.splits)

lemma prune_one_self:
  "map_find k (condMsgs (fresh (prune_one lv k c))) =
     (if k \<notin> possiblyUsed lv \<or> k \<notin> possiblyKilled lv then None
      else map_find k (condMsgs (fresh c)))"
  by (auto simp add: prune_one_def map_find_erase split: option.splits)

lemma prune_one_infos:
  "infos (prune_one lv k c) =
     infos c @ (if k \<in> possiblyUsed lv \<and> k \<notin> possiblyKilled lv then pending c k else [])"
  by (simp add: prune_one_def pending_def split: option.splits)

lemma prune_one_pending_other: "k' \<noteq> k \<Longrightarrow> pending (prune_one lv k c) k' = pending c k'"
  by (simp add: pending_def prune_one_other)

lemma fold_prune_other:
  "k' \<notin> set ks \<Longrightarrow>
   map_find k' (condMsgs (fresh (fold (prune_one lv) ks c))) = map_find k' (condMsgs (fresh c))"
  by (induction ks arbitrary: c) (auto simp: prune_one_other)

lemma fold_prune_infos:
  "distinct ks \<Longrightarrow>
   infos (fold (prune_one lv) ks c) =
     infos c @ concat (map (pending c)
                 (filter (\<lambda>k. k \<in> possiblyUsed lv \<and> k \<notin> possiblyKilled lv) ks))"
proof (induction ks arbitrary: c)
  case Nil
  show ?case by simp
next
  case (Cons k ks)
  have "map (pending (prune_one lv k c)) (filter (\<lambda>k. k \<in> possiblyUsed lv \<and> k \<notin> possiblyKilled lv) ks)
      = map (pending c) (filter (\<lambda>k. k \<in> possiblyUsed lv \<and> k \<notin> possiblyKilled lv) ks)"
  proof (intro map_cong refl)
    fix x assume "x \<in> set (filter (\<lambda>k. k \<in> possiblyUsed lv \<and> k \<notin> possiblyKilled lv) ks)"
    with Cons.prems have "x \<noteq> k" by auto
    then show "pending (prune_one lv k c) x = pending c x"
      by (rule prune_one_pending_other)
  qed
  note eq = this
  let ?F = "filter (\<lambda>k. k \<in> possiblyUsed lv \<and> k \<notin> possiblyKilled lv) ks"
  from Cons.prems have d: "distinct ks" by simp
  have "infos (fold (prune_one lv) (k # ks) c) = infos (fold (prune_one lv) ks (prune_one lv k c))"
    by simp
  also have "\<dots> = infos (prune_one lv k c) @ concat (map (pending (prune_one lv k c)) ?F)"
    by (rule Cons.IH [OF d])
  also have "\<dots> = (infos c @ (if k \<in> possiblyUsed lv \<and> k \<notin> possiblyKilled lv
                                then pending c k else [])) @ concat (map (pending c) ?F)"
    by (simp only: eq prune_one_infos)
  also have "\<dots> = infos c @ concat (map (pending c)
                 (filter (\<lambda>k. k \<in> possiblyUsed lv \<and> k \<notin> possiblyKilled lv) (k # ks)))"
    by simp
  finally show ?case .
qed

lemma fold_prune_condMsgs:
  "distinct ks \<Longrightarrow>
   map_find v (condMsgs (fresh (fold (prune_one lv) ks c))) =
     (if v \<in> set ks \<and> (v \<notin> possiblyUsed lv \<or> v \<notin> possiblyKilled lv) then None
      else map_find v (condMsgs (fresh c)))"
proof (induction ks arbitrary: c)
  case Nil
  show ?case by simp
next
  case (Cons k ks)
  show ?case
  proof (cases "v = k")
    case True
    with Cons.prems have "v \<notin> set ks" by simp
    then show ?thesis using True
      by (simp add: fold_prune_other prune_one_self)
  next
    case False
    from Cons.prems have "distinct ks" by simp
    from Cons.IH [OF this, of "prune_one lv k c"] False
    show ?thesis by (auto simp add: prune_one_other)
  qed
qed

lemma pruneFreshVars_result:
  assumes "distinct (map fst (vars (fresh c)))"
  shows "pruneFreshVars (Some lv) c = Returns (fold (prune_one lv) (map fst (vars (fresh c))) c)"
  by (cases "vars (fresh c)") (simp_all add: pruneFreshVars_def)

lemma pruneFreshVars_messages:
  assumes "distinct (map fst (vars (fresh c)))"
  shows "\<exists>c'. pruneFreshVars (Some lv) c = Returns c' \<and>
     infos c' = infos c @ concat (map (pending c) (going_to_be_used lv c)) \<and>
     (\<forall>v. map_find v (condMsgs (fresh c')) =
        (if v \<in> fst ` set (vars (fresh c)) \<and> (v \<notin> possiblyUsed lv \<or> v \<notin> possiblyKilled lv)
         then None else map_find v (condMsgs (fresh c))))"
  using assms
  by (simp add: pruneFreshVars_result fold_prune_infos fold_prune_condMsgs going_to_be_used_def)

lemma isVarCheckedFresh_infos:
  "isVarCheckedFresh V d c = (b, c') \<Longrightarrow>
     infos c' = infos c \<or> infos c' = infos c @ [(M_address_taken d, None)]"
  by (auto simp add: isVarCheckedFresh_def Let_def split: option.splits if_splits)

lemma isVarCheckedFresh_True_infos:
  "isVarCheckedFresh V d c = (True, c') \<Longrightarrow> infos c' = infos c"
  by (auto simp add: isVarCheckedFresh_def Let_def split: option.splits if_splits)

lemma store_to_var_condMsgs [simp]:
  "condMsgs (fresh (store_to_var V si var c)) = condMsgs (fresh c)"
  by (auto simp: store_to_var_def Let_def isVarCheckedFresh_frame2
      split: option.splits Shape.splits Pointer.splits prod.splits bool.splits
        store_users_result.splits)

lemma store_to_var_infos:
  "infos (store_to_var V si var c) = infos c \<or>
   (\<exists>d. infos (store_to_var V si var c) = infos c @ [(M_address_taken d, None)])"
  by (auto simp: store_to_var_def Let_def
      split: option.splits Shape.splits Pointer.splits prod.splits bool.splits
        store_users_result.splits dest: isVarCheckedFresh_infos)

lemma handleStore_discards:
  assumes "\<not> confused (fresh c)" and "s_node_stack si = None" and "s_pointer si = P_alloca v"
    and "fst (isVarCheckedFresh V v c)"
  shows "\<exists>c'. handleStore V bal (I_store si) c = Returns c' \<and>
           map_find v (condMsgs (fresh c')) = None \<and>
           (\<forall>w. w \<noteq> v \<longrightarrow> map_find w (condMsgs (fresh c')) = map_find w (condMsgs (fresh c))) \<and>
           (infos c' = infos c \<or> (\<exists>d. infos c' = infos c @ [(M_address_taken d, None)]))"
proof -
  obtain c1 where ch: "isVarCheckedFresh V v c = (True, c1)"
    using assms(4) by (cases "isVarCheckedFresh V v c") auto
  let ?c2 = "c1 \<lparr> fresh := (fresh c1) \<lparr> condMsgs := map_erase v (condMsgs (fresh c1)) \<rparr> \<rparr>"
  have r: "handleStore V bal (I_store si) c = Returns (store_to_var V si v ?c2)"
    using assms(1-3) ch by (simp add: handleStore_def)
  have f: "fresh c1 = fresh c" and i: "infos c1 = infos c"
    using ch by (auto dest: isVarCheckedFresh_frame2 isVarCheckedFresh_True_infos)
  from store_to_var_infos [of V si v ?c2] i
  have "infos (store_to_var V si v ?c2) = infos c \<or>
        (\<exists>d. infos (store_to_var V si v ?c2) = infos c @ [(M_address_taken d, None)])"
    by simp
  then show ?thesis
    unfolding r by (auto simp: f map_find_erase)
qed

lemma issueConditionalMessage_new:
  assumes "map_find v (condMsgs (fresh c)) = None"
  shows "(infos (issueConditionalMessage i live v m c) = infos c @ [(m, Some i)] \<and>
          map_find v (condMsgs (fresh (issueConditionalMessage i live v m c))) = None) \<or>
         (infos (issueConditionalMessage i live v m c) = infos c \<and>
          map_find v (condMsgs (fresh (issueConditionalMessage i live v m c))) = Some [(m, Some i)])"
  using assms
  by (auto simp: issueConditionalMessage_def map_find_insert split: option.splits)

lemma fresh_argument_new:
  assumes "map_find v (condMsgs (fresh c)) = None" and "cu_arg_index cu \<noteq> None"
  shows "\<exists>c' extra. fresh_argument V li v cu tgt c = Returns c' \<and> infos c' = infos c @ extra \<and>
          (map_find v (condMsgs (fresh c')) = None \<or>
           (\<exists>m. map_find v (condMsgs (fresh c')) = Some [(m, Some (l_id li))]))"
proof -
  from assms(2) obtain aidx where a: "cu_arg_index cu = Some aidx" by auto
  show ?thesis
  proof (cases "aidx < fun_arg_size tgt \<and> aidx \<in> calleeProtectArgs tgt")
    case True
    with a assms(1) show ?thesis
      by (intro exI [of _ c] exI [of _ "[]"]) (simp add: fresh_argument_def)
  next
    case False
    define sfx where "sfx = (if name_is_empty V v then Some (aidx + 1) else None)"
    define c1 where "c1 = (if aidx \<ge> fun_arg_size tgt \<or> aidx \<notin> calleeSafeArgs tgt then
                         c \<lparr> infos := infos c @
                                [(M_fresh_pointer (fun_name tgt) v sfx, Some (l_id li))],
                             refinable := refinable c + 1 \<rparr>
                       else c)"
    define c' where "c' = issueConditionalMessage (l_id li) (l_live li) v
                           (M_may_destroy_argument (fun_name tgt) v sfx) c1"
    have r: "fresh_argument V li v cu tgt c = Returns c'"
      using a False by (auto simp: fresh_argument_def Let_def c'_def c1_def sfx_def)
    have n: "map_find v (condMsgs (fresh c1)) = None"
      using assms(1) by (simp add: c1_def)
    obtain e1 where e1: "infos c1 = infos c @ e1"
      by (cases "aidx \<ge> fun_arg_size tgt \<or> aidx \<notin> calleeSafeArgs tgt") (auto simp: c1_def)
    from issueConditionalMessage_new [OF n, of "l_id li" "l_live li"
           "M_may_destroy_argument (fun_name tgt) v sfx"]
    have "(infos c' = infos c1 @ [(M_may_destroy_argument (fun_name tgt) v sfx, Some (l_id li))] \<and>
           map_find v (condMsgs (fresh c')) = None) \<or>
          (infos c' = infos c1 \<and>
           map_find v (condMsgs (fresh c')) =
             Some [(M_may_destroy_argument (fun_name tgt) v sfx, Some (l_id li))])"
      by (simp only: c'_def)
    then show ?thesis
    proof
      assume "infos c' = infos c1 @ [(M_may_destroy_argument (fun_name tgt) v sfx, Some (l_id li))] \<and>
           map_find v (condMsgs (fresh c')) = None"
      then show ?thesis unfolding r
        by (intro exI [of _ c']
              exI [of _ "e1 @ [(M_may_destroy_argument (fun_name tgt) v sfx, Some (l_id li))]"])
           (simp add: e1)
    next
      assume "infos c' = infos c1 \<and>
           map_find v (condMsgs (fresh c')) =
             Some [(M_may_destroy_argument (fun_name tgt) v sfx, Some (l_id li))]"
      then show ?thesis unfolding r
        by (intro exI [of _ c'] exI [of _ e1]) (simp add: e1)
    qed
  qed
qed

lemma handleLoad_flushes:
  assumes "\<not> confused (fresh c)" and "l_pointer li = P_alloca v"
    and "map_find v (condMsgs (fresh c)) = Some dmsg"
    and "\<forall>cu. l_users li = [U_call cu] \<longrightarrow> cu_arg_index cu \<noteq> None"
  shows "\<exists>c' extra. handleLoad V (I_load li) c = Returns c' \<and>
           infos c' = infos c @ dmsg @ extra \<and>
           (map_find v (condMsgs (fresh c')) = None \<or>
            (\<exists>m. map_find v (condMsgs (fresh c')) = Some [(m, Some (l_id li))]))"
proof -
  let ?c1 = "c \<lparr> infos := infos c @ dmsg, refinable := refinable c + 1,
                 fresh := (fresh c) \<lparr> condMsgs := map_erase v (condMsgs (fresh c)) \<rparr> \<rparr>"
  have n1: "map_find v (condMsgs (fresh ?c1)) = None" by (simp add: map_find_erase)
  have triv: "\<And>c2. infos c2 = infos ?c1 \<Longrightarrow> condMsgs (fresh c2) = condMsgs (fresh ?c1) \<Longrightarrow>
     \<exists>c' extra. Returns c2 = Returns c' \<and>
           infos c' = infos c @ dmsg @ extra \<and>
           (map_find v (condMsgs (fresh c')) = None \<or>
            (\<exists>m. map_find v (condMsgs (fresh c')) = Some [(m, Some (l_id li))]))"
  proof -
    fix c2 assume "infos c2 = infos ?c1" "condMsgs (fresh c2) = condMsgs (fresh ?c1)"
    then show "\<exists>c' extra. Returns c2 = Returns c' \<and>
           infos c' = infos c @ dmsg @ extra \<and>
           (map_find v (condMsgs (fresh c')) = None \<or>
            (\<exists>m. map_find v (condMsgs (fresh c')) = Some [(m, Some (l_id li))]))"
      by (intro exI [of _ c2] exI [of _ "[]"]) (simp add: map_find_erase)
  qed
  show ?thesis
  proof (cases "map_find v (vars (fresh ?c1))")
    case None
    then have "handleLoad V (I_load li) c = Returns ?c1"
      using assms(1-3) by (simp add: handleLoad_def QUIET_WHEN_CONFUSED_def)
    with triv [of ?c1] show ?thesis by simp
  next
    case (Some nProtects)
    let ?c2 = "?c1 \<lparr> fresh := (fresh ?c1)
                    \<lparr> vars := load_users_loop v (l_users li) (vars (fresh ?c1)) \<rparr> \<rparr>"
    have n2: "map_find v (condMsgs (fresh ?c2)) = None" by (simp add: map_find_erase)
    have t2: "\<exists>c' extra. Returns ?c2 = Returns c' \<and>
           infos c' = infos c @ dmsg @ extra \<and>
           (map_find v (condMsgs (fresh c')) = None \<or>
            (\<exists>m. map_find v (condMsgs (fresh c')) = Some [(m, Some (l_id li))]))"
      by (rule triv) simp_all
    show ?thesis
    proof (cases "\<exists>cu tgt. l_users li = [U_call cu] \<and> cu_resolved cu = Some tgt \<and>
              \<not> (\<not> isCAllocating tgt \<or> protectsArguments tgt \<or> isCalleeProtect tgt) \<and>
              \<not> nProtects > 0")
      case True
      then obtain cu tgt where u: "l_users li = [U_call cu]" "cu_resolved cu = Some tgt"
        "\<not> (\<not> isCAllocating tgt \<or> protectsArguments tgt \<or> isCalleeProtect tgt)"
        "\<not> nProtects > 0" by blast
      with assms(4) have ai: "cu_arg_index cu \<noteq> None" by simp
      from u assms(1-3) Some
      have h': "handleLoad V (I_load li) c = fresh_argument V li v cu tgt ?c2"
        by (simp add: handleLoad_def QUIET_WHEN_CONFUSED_def Let_def)
      from fresh_argument_new [OF n2 ai, of V li tgt]
      obtain c' extra where "fresh_argument V li v cu tgt ?c2 = Returns c'"
        "infos c' = infos ?c2 @ extra"
        "map_find v (condMsgs (fresh c')) = None \<or>
           (\<exists>m. map_find v (condMsgs (fresh c')) = Some [(m, Some (l_id li))])" by blast
      then show ?thesis unfolding h' by (intro exI [of _ c'] exI [of _ extra]) simp
    next
      case False
      with assms(1-3) Some have "handleLoad V (I_load li) c = Returns ?c2"
        by (auto simp add: handleLoad_def QUIET_WHEN_CONFUSED_def Let_def
            split: list.splits User.splits option.splits)
      with t2 show ?thesis by simp
    qed
  qed
qed

section \<open>Properties of the fresh-variables transfer functions\<close>

lemmas ex_defs = example_ctx_def example_ctx1_def example_ctx2_def confused_ctx_def example_state_def
  example_view_def runtime_function_def constant_value_def loaded_value_def allocated_value_def
  example_liveness_def dead_liveness_def unprotect_call_def unprotect_counter_call_def
  protect_call_def cons_call_def load_of_def store_to_def pending_line_def





text \<open>
  Claim C4, as amended.  In the transfer of part\_001, a call to \<open>Rf_unprotect\<close> with a
  known count greater than the size of the protect stack, on a trace that is not
  confused, gives the finding to the messenger, increments \<open>refinableInfos\<close>, sets the
  \<open>confused\<close> flag and returns with the rest of the fresh-variables state unchanged.  The
  transfer of part\_002 has no \<open>confused\<close> flag: for a constant count it gives the finding,
  increments \<open>refinableInfos\<close> and returns with the state unchanged.
\<close>

theorem unprotect_beyond_stack:
  assumes "c_target ci = Some tgt" and "fun_name tgt = ''Rf_unprotect''"
    and "c_args ci = arg # rest" and "k > length (pstack (fresh c))"
  shows
    "(unprotect_count bal arg = Some k \<and> \<not> confused (fresh c) \<longrightarrow>
        handleCall V bal (I_call ci) c =
          Returns (c \<lparr> infos := infos c @
                          [(M_unprotect_more k (length (pstack (fresh c))), Some (c_id ci))],
                       refinable := refinable c + 1,
                       fresh := (fresh c) \<lparr> confused := True \<rparr> \<rparr>)) \<and>
     (shape arg = ConstantInt k \<longrightarrow>
        handleCall_002 V (I_call ci) c =
          Returns (c \<lparr> infos := infos c @
                          [(M_unprotect_more k (length (pstack (fresh c))), Some (c_id ci))],
                       refinable := refinable c + 1 \<rparr>))"
  using assms
  by (simp add: handleCall_def protection_part_def unprotect_block_def Let_def
      QUIET_WHEN_CONFUSED_def handleCall_002_def unprotect_block_002_def)

theorem unprotect_beyond_stack_witness:
  "handleCall example_view None (I_call (unprotect_call 3)) example_ctx =
     Returns (example_ctx \<lparr> infos := [(M_unprotect_more 3 2, Some 20)], refinable := 1,
                fresh := (fresh example_ctx) \<lparr> confused := True \<rparr> \<rparr>) \<and>
   handleCall_002 example_view (I_call (unprotect_call 3)) example_ctx =
     Returns (example_ctx \<lparr> infos := [(M_unprotect_more 3 2, Some 20)], refinable := 1 \<rparr>)"
proof -
  have h: "c_target (unprotect_call 3) = Some (runtime_function ''Rf_unprotect'' False)"
    "fun_name (runtime_function ''Rf_unprotect'' False) = ''Rf_unprotect''"
    "c_args (unprotect_call 3) = constant_value 3 # []"
    "3 > length (pstack (fresh example_ctx))"
    by (simp_all add: ex_defs)
  have a: "unprotect_count None (constant_value 3) = Some 3" "\<not> confused (fresh example_ctx)"
    "shape (constant_value 3) = ConstantInt 3" "length (pstack (fresh example_ctx)) = 2"
    "c_id (unprotect_call 3) = 20" "infos example_ctx = []" "refinable example_ctx = 0"
    by (simp_all add: ex_defs unprotect_count_def)
  from unprotect_beyond_stack [OF h, of None example_view] a show ?thesis by simp
qed

text \<open>
  Claim C4 as stated fails.  A first \<open>UNPROTECT(3)\<close> with two entries on the stack
  makes the trace confused; at a second one the transfer of part\_001 emits no finding.
  And the transfer of part\_002 emits the finding without setting a \<open>confused\<close> flag.
\<close>

theorem unprotect_beyond_quiet_counterexample:
  "handleCall example_view None (I_call (unprotect_call 3)) example_ctx = Returns confused_ctx \<and>
   unprotect_count None (constant_value 3) = Some 3 \<and>
   3 > length (pstack (fresh confused_ctx)) \<and>
   handleCall example_view None (I_call (unprotect_call 3)) confused_ctx = Returns confused_ctx \<and>
   handleCall_002 example_view (I_call (unprotect_call 3)) example_ctx =
     Returns (example_ctx \<lparr> infos := [(M_unprotect_more 3 2, Some 20)], refinable := 1 \<rparr>) \<and>
   \<not> confused (fresh (example_ctx \<lparr> infos := [(M_unprotect_more 3 2, Some 20)], refinable := 1 \<rparr>))"
  by (simp add: ex_defs handleCall_def handleCall_002_def QUIET_WHEN_CONFUSED_def
      unprotect_count_def unprotect_block_002_def protection_part_def unprotect_block_def
      Let_def)




text \<open>
  Claim C6, as amended.  On a trace that is not confused, the lines pending for a slot
  \<open>v\<close> are
  (a) discarded, none of them given to the messenger, when a store writes \<open>v\<close> (a store to
  the slot itself, \<open>v\<close> being an \<open>SEXP\<close> slot with load and store users only);
  (b) discarded, none of them given to the messenger, by \<open>pruneFreshVars\<close> at an
  allocating call when \<open>v\<close> is in \<open>vars\<close> and not possibly used;
  (c) given to the messenger and removed when \<open>v\<close> is loaded, and by \<open>pruneFreshVars\<close> at
  an allocating call when \<open>v\<close> is in \<open>vars\<close>, possibly used and not possibly killed (the
  call or the load may then attach a new line to \<open>v\<close>).
  \<open>pruneFreshVars\<close> is what \<open>handleCall\<close> runs at a call to an allocating function that is
  none of the protection primitives.  On a confused trace the pending lines are neither
  discarded nor given to the messenger.
\<close>

theorem conditional_messages:
  "(\<not> confused (fresh c) \<and> s_node_stack si = None \<and> s_pointer si = P_alloca v \<and>
    fst (isVarCheckedFresh V v c) \<longrightarrow>
      (\<exists>c'. handleStore V bal (I_store si) c = Returns c' \<and>
         map_find v (condMsgs (fresh c')) = None \<and>
         (\<forall>w. w \<noteq> v \<longrightarrow> map_find w (condMsgs (fresh c')) = map_find w (condMsgs (fresh c))) \<and>
         (infos c' = infos c \<or> (\<exists>d. infos c' = infos c @ [(M_address_taken d, None)])))) \<and>
   (distinct (map fst (vars (fresh c))) \<longrightarrow>
      (\<exists>c'. pruneFreshVars (Some lv) c = Returns c' \<and>
         infos c' = infos c @ concat (map (pending c) (going_to_be_used lv c)) \<and>
         (\<forall>w. map_find w (condMsgs (fresh c')) =
            (if w \<in> fst ` set (vars (fresh c)) \<and>
                (w \<notin> possiblyUsed lv \<or> w \<notin> possiblyKilled lv)
             then None else map_find w (condMsgs (fresh c)))))) \<and>
   (\<not> confused (fresh c) \<and> c_target ci = Some tgt \<and> isCAllocating tgt \<and>
    fun_name tgt \<notin> {''R_PreserveObject'', ''Rf_protect'', ''R_ProtectWithIndex'',
                     ''R_Reprotect'', ''Rf_unprotect''} \<longrightarrow>
      handleCall V bal (I_call ci) c =
        obind (pruneFreshVars (c_live ci) (allocating_args_check ci tgt c))
          (\<lambda>c3. Returns (report_fresh_vars ci tgt c3)) \<and>
      fresh (allocating_args_check ci tgt c) = fresh c) \<and>
   (\<not> confused (fresh c) \<and> l_pointer li = P_alloca v \<and>
    map_find v (condMsgs (fresh c)) = Some dmsg \<and>
    (\<forall>cu. l_users li = [U_call cu] \<longrightarrow> cu_arg_index cu \<noteq> None) \<longrightarrow>
      (\<exists>c' extra. handleLoad V (I_load li) c = Returns c' \<and>
         infos c' = infos c @ dmsg @ extra \<and>
         (map_find v (condMsgs (fresh c')) = None \<or>
          (\<exists>m. map_find v (condMsgs (fresh c')) = Some [(m, Some (l_id li))])))) \<and>
   (confused (fresh c) \<longrightarrow>
      handleLoad V inst c = Returns c \<and> handleStore V bal inst c = Returns c \<and>
      (\<exists>c'. handleCall V bal inst c = Returns c' \<and> fresh c' = fresh c))"
proof -
  have a: "\<not> confused (fresh c) \<and> s_node_stack si = None \<and> s_pointer si = P_alloca v \<and>
    fst (isVarCheckedFresh V v c) \<longrightarrow>
      (\<exists>c'. handleStore V bal (I_store si) c = Returns c' \<and>
         map_find v (condMsgs (fresh c')) = None \<and>
         (\<forall>w. w \<noteq> v \<longrightarrow> map_find w (condMsgs (fresh c')) = map_find w (condMsgs (fresh c))) \<and>
         (infos c' = infos c \<or> (\<exists>d. infos c' = infos c @ [(M_address_taken d, None)])))"
    using handleStore_discards [of c si v V bal] by blast
  have b: "distinct (map fst (vars (fresh c))) \<longrightarrow>
      (\<exists>c'. pruneFreshVars (Some lv) c = Returns c' \<and>
         infos c' = infos c @ concat (map (pending c) (going_to_be_used lv c)) \<and>
         (\<forall>w. map_find w (condMsgs (fresh c')) =
            (if w \<in> fst ` set (vars (fresh c)) \<and>
                (w \<notin> possiblyUsed lv \<or> w \<notin> possiblyKilled lv)
             then None else map_find w (condMsgs (fresh c)))))"
    using pruneFreshVars_messages [of c lv] by blast
  have c: "\<not> confused (fresh c) \<and> c_target ci = Some tgt \<and> isCAllocating tgt \<and>
    fun_name tgt \<notin> {''R_PreserveObject'', ''Rf_protect'', ''R_ProtectWithIndex'',
                     ''R_Reprotect'', ''Rf_unprotect''} \<longrightarrow>
      handleCall V bal (I_call ci) c =
        obind (pruneFreshVars (c_live ci) (allocating_args_check ci tgt c))
          (\<lambda>c3. Returns (report_fresh_vars ci tgt c3)) \<and>
      fresh (allocating_args_check ci tgt c) = fresh c"
    by (simp add: handleCall_def protection_part_def Let_def)
  have d: "\<not> confused (fresh c) \<and> l_pointer li = P_alloca v \<and>
    map_find v (condMsgs (fresh c)) = Some dmsg \<and>
    (\<forall>cu. l_users li = [U_call cu] \<longrightarrow> cu_arg_index cu \<noteq> None) \<longrightarrow>
      (\<exists>c' extra. handleLoad V (I_load li) c = Returns c' \<and>
         infos c' = infos c @ dmsg @ extra \<and>
         (map_find v (condMsgs (fresh c')) = None \<or>
          (\<exists>m. map_find v (condMsgs (fresh c')) = Some [(m, Some (l_id li))])))"
    using handleLoad_flushes [of c li v dmsg V] by blast
  have e: "confused (fresh c) \<longrightarrow>
      handleLoad V inst c = Returns c \<and> handleStore V bal inst c = Returns c \<and>
      (\<exists>c'. handleCall V bal inst c = Returns c' \<and> fresh c' = fresh c)"
  proof
    assume cf: "confused (fresh c)"
    from handleCall_confused [OF cf, of V bal inst] obtain extra where
      "handleCall V bal inst c =
         Returns (c \<lparr> infos := infos c @ extra, refinable := refinable c + length extra \<rparr>)"
      by blast
    then have "\<exists>c'. handleCall V bal inst c = Returns c' \<and> fresh c' = fresh c" by simp
    with cf show "handleLoad V inst c = Returns c \<and> handleStore V bal inst c = Returns c \<and>
      (\<exists>c'. handleCall V bal inst c = Returns c' \<and> fresh c' = fresh c)"
      by (simp add: handleLoad_confused handleStore_confused)
  qed
  from a b c d e show ?thesis by blast
qed

theorem conditional_messages_witness:
  "(\<exists>c'. handleStore example_view None (I_store (store_to 2)) example_ctx = Returns c' \<and>
      map_find 2 (condMsgs (fresh c')) = None) \<and>
   (\<exists>c'. pruneFreshVars (Some dead_liveness) example_ctx = Returns c' \<and>
      infos c' = [] \<and> map_find 2 (condMsgs (fresh c')) = None) \<and>
   (\<exists>c'. pruneFreshVars (Some example_liveness) example_ctx = Returns c' \<and>
      infos c' = [pending_line] \<and> map_find 2 (condMsgs (fresh c')) = None) \<and>
   (\<exists>c' extra. handleLoad example_view (I_load (load_of 2)) example_ctx = Returns c' \<and>
      infos c' = pending_line # extra)"
proof -
  note t = conditional_messages [of example_ctx "store_to 2" 2 example_view None dead_liveness
      cons_call "runtime_function ''Rf_cons'' True" "load_of 2" "[pending_line]"]
  note u = conditional_messages [of example_ctx "store_to 2" 2 example_view None example_liveness
      cons_call "runtime_function ''Rf_cons'' True" "load_of 2" "[pending_line]"]
  note t1 = t [THEN conjunct1]
  note t2 = t [THEN conjunct2, THEN conjunct1]
  note u2 = u [THEN conjunct2, THEN conjunct1]
  note t4 = t [THEN conjunct2, THEN conjunct2, THEN conjunct2, THEN conjunct1]
  have h1: "\<not> confused (fresh example_ctx) \<and> s_node_stack (store_to 2) = None \<and>
    s_pointer (store_to 2) = P_alloca 2 \<and> fst (isVarCheckedFresh example_view 2 example_ctx)"
    by (simp add: ex_defs isVarCheckedFresh_def isVarCheckedFresh_users_def map_find_def Let_def)
  have h2: "distinct (map fst (vars (fresh example_ctx)))"
    by (simp add: ex_defs)
  have h4: "\<not> confused (fresh example_ctx) \<and> l_pointer (load_of 2) = P_alloca 2 \<and>
    map_find 2 (condMsgs (fresh example_ctx)) = Some [pending_line] \<and>
    (\<forall>cu. l_users (load_of 2) = [U_call cu] \<longrightarrow> cu_arg_index cu \<noteq> None)"
    by (simp add: ex_defs map_find_def)
  have g: "going_to_be_used dead_liveness example_ctx = []"
    "going_to_be_used example_liveness example_ctx = [2]"
    "pending example_ctx 2 = [pending_line]" "infos example_ctx = []"
    "2 \<in> fst ` set (vars (fresh example_ctx))"
    "2 \<notin> possiblyUsed dead_liveness" "2 \<notin> possiblyKilled example_liveness"
    by (simp_all add: ex_defs going_to_be_used_def pending_def map_find_def)
  from t1 [THEN mp, OF h1] obtain c0 where
    c0: "handleStore example_view None (I_store (store_to 2)) example_ctx = Returns c0"
        "map_find 2 (condMsgs (fresh c0)) = None" by blast
  from t2 [THEN mp, OF h2] obtain c1 where
    c1: "pruneFreshVars (Some dead_liveness) example_ctx = Returns c1"
    "infos c1 = infos example_ctx @ concat (map (pending example_ctx) (going_to_be_used dead_liveness example_ctx))"
    "\<forall>w. map_find w (condMsgs (fresh c1)) =
            (if w \<in> fst ` set (vars (fresh example_ctx)) \<and>
                (w \<notin> possiblyUsed dead_liveness \<or> w \<notin> possiblyKilled dead_liveness)
             then None else map_find w (condMsgs (fresh example_ctx)))"
    by blast
  from c1(3) [THEN spec, of 2] g(5,6) have k1: "map_find 2 (condMsgs (fresh c1)) = None" by simp
  from c1(2) g(1,4) have i1: "infos c1 = []" by simp
  from u2 [THEN mp, OF h2] obtain c2 where
    c2: "pruneFreshVars (Some example_liveness) example_ctx = Returns c2"
    "infos c2 = infos example_ctx @ concat (map (pending example_ctx) (going_to_be_used example_liveness example_ctx))"
    "\<forall>w. map_find w (condMsgs (fresh c2)) =
            (if w \<in> fst ` set (vars (fresh example_ctx)) \<and>
                (w \<notin> possiblyUsed example_liveness \<or> w \<notin> possiblyKilled example_liveness)
             then None else map_find w (condMsgs (fresh example_ctx)))"
    by blast
  from c2(3) [THEN spec, of 2] g(5,7) have k2: "map_find 2 (condMsgs (fresh c2)) = None" by simp
  from c2(2) g(2,3,4) have i2: "infos c2 = [pending_line]" by simp
  from t4 [THEN mp, OF h4] obtain c3 extra where
    c3: "handleLoad example_view (I_load (load_of 2)) example_ctx = Returns c3"
    "infos c3 = infos example_ctx @ [pending_line] @ extra" by blast
  from c3(2) g(4) have i3: "infos c3 = pending_line # extra" by simp
  show ?thesis
    using c0 c1(1) k1 i1 c2(1) k2 i2 c3(1) i3 by blast
qed

text \<open>
  Claim C6 as stated fails.  \<open>UNPROTECT(3)\<close> with two entries on the stack makes the trace
  confused while a line is pending for slot 2.  A store that then overwrites slot 2 does
  not discard the line, and a load of slot 2 neither gives it to the messenger nor
  removes it.  And on a trace that is not confused, once the store of a copy of slot 2 to
  the node stack has taken slot 2 out of \<open>vars\<close>, \<open>pruneFreshVars\<close> keeps the line pending
  for slot 2 although slot 2 is not possibly used: its loop runs over \<open>vars\<close>.
\<close>

theorem conditional_messages_kept_counterexample:
  "handleCall example_view None (I_call (unprotect_call 3)) example_ctx = Returns confused_ctx \<and>
   map_find 2 (condMsgs (fresh confused_ctx)) = Some [pending_line] \<and>
   handleStore example_view None (I_store (store_to 2)) confused_ctx = Returns confused_ctx \<and>
   handleLoad example_view (I_load (load_of 2)) confused_ctx = Returns confused_ctx \<and>
   handleStore example_view None (I_store alias_store) example_ctx = Returns example_ctx3 \<and>
   map_find 2 (condMsgs (fresh example_ctx3)) = Some [pending_line] \<and>
   2 \<notin> possiblyUsed dead_liveness \<and>
   pruneFreshVars (Some dead_liveness) example_ctx3 = Returns example_ctx3"
proof -
  have a: "handleCall example_view None (I_call (unprotect_call 3)) example_ctx
             = Returns confused_ctx \<and>
     map_find 2 (condMsgs (fresh confused_ctx)) = Some [pending_line] \<and>
     handleStore example_view None (I_store (store_to 2)) confused_ctx = Returns confused_ctx \<and>
     handleLoad example_view (I_load (load_of 2)) confused_ctx = Returns confused_ctx"
    by (simp add: ex_defs handleStore_def handleLoad_def QUIET_WHEN_CONFUSED_def map_find_def
        handleCall_def protection_part_def unprotect_block_def unprotect_count_def Let_def)
  have "alias_walk (\<lambda>v. None) 2 [(1, 1)] = Some [(1, 1)]"
    by (subst alias_walk.simps) simp
  then have b: "handleStore example_view None (I_store alias_store) example_ctx
                  = Returns example_ctx3"
    by (simp add: ex_defs alias_store_def example_ctx3_def handleStore_def
        QUIET_WHEN_CONFUSED_def unfreshAliasedVars_def map_erase_def)
  have c: "map_find 2 (condMsgs (fresh example_ctx3)) = Some [pending_line] \<and>
     2 \<notin> possiblyUsed dead_liveness \<and>
     pruneFreshVars (Some dead_liveness) example_ctx3 = Returns example_ctx3"
    by (simp add: ex_defs example_ctx3_def map_find_def pruneFreshVars_def prune_one_def)
  from a b c show ?thesis by blast
qed

text \<open>
  Claim C7, as amended.  Once the \<open>confused\<close> flag is set, \<open>handleLoad\<close> and \<open>handleStore\<close>
  return at once, and \<open>handleCall\<close> changes nothing but the messenger and the counter
  \<open>refinableInfos\<close>: the only findings it still emits are those of the check of the
  arguments of an allocating call that are themselves allocated by a call.
\<close>

theorem confused_trace_quiet:
  assumes "confused (fresh c)"
  shows "handleLoad V inst c = Returns c \<and> handleStore V bal inst c = Returns c \<and>
         (\<exists>extra. handleCall V bal inst c =
             Returns (c \<lparr> infos := infos c @ extra, refinable := refinable c + length extra \<rparr>) \<and>
           (\<forall>l \<in> set extra. \<exists>f g i. l = (M_allocating_argument f g, Some i)))"
  using assms handleLoad_confused handleStore_confused handleCall_confused by blast

theorem confused_trace_quiet_witness:
  "handleLoad example_view (I_load (load_of 2)) confused_ctx = Returns confused_ctx \<and>
   handleStore example_view None (I_store (store_to 2)) confused_ctx = Returns confused_ctx \<and>
   (\<exists>extra. handleCall example_view None (I_call (unprotect_call 1)) confused_ctx =
       Returns (confused_ctx \<lparr> infos := infos confused_ctx @ extra,
                               refinable := refinable confused_ctx + length extra \<rparr>))"
proof -
  have "confused (fresh confused_ctx)" by (simp add: ex_defs)
  from confused_trace_quiet [OF this, of example_view _ None]
  show ?thesis by blast
qed

text \<open>
  Claim C7 as stated fails.  \<open>UNPROTECT(3)\<close> with two entries on the stack sets the
  \<open>confused\<close> flag; the call \<open>cons(allocVector(..), allocVector(..))\<close> that follows gives
  two findings to the messenger.
\<close>

theorem confused_trace_reports_counterexample:
  "handleCall example_view None (I_call (unprotect_call 3)) example_ctx = Returns confused_ctx \<and>
   confused (fresh confused_ctx) \<and>
   handleCall example_view None (I_call cons_call) confused_ctx =
     Returns (confused_ctx
       \<lparr> infos := [(M_unprotect_more 3 2, Some 20),
                   (M_allocating_argument ''Rf_cons'' ''Rf_allocVector'', Some 22),
                   (M_allocating_argument ''Rf_cons'' ''Rf_allocVector'', Some 22)],
         refinable := 3 \<rparr>)"
  by (simp add: ex_defs handleCall_def QUIET_WHEN_CONFUSED_def allocating_args_check_def
      protection_part_def unprotect_block_def unprotect_count_def Let_def)

end
